theory Spec2Isabelle
  imports Complex_Main
begin

section \<open>ECMAScript strings and values\<close>

text \<open>
  An ECMAScript string is a sequence of UTF-16 code units, so \<open>jstring\<close> is a list of
  code units (numbers below 65536). ASCII literals are written \<open>js ''id''\<close>; the Hangul
  entries of the synonym table are written as their code units.
\<close>

type_synonym jstring = "nat list"

abbreviation js :: "string \<Rightarrow> jstring" where
  "js s \<equiv> map of_char s"

text \<open>
  \<open>WhiteSpace\<close> and \<open>LineTerminator\<close> of ECMA-262: what \<open>String.prototype.trim\<close> strips,
  what \<open>\s\<close> matches and what \<open>StringToNumber\<close> skips.
\<close>

definition is_space :: "nat \<Rightarrow> bool" where
  "is_space c \<longleftrightarrow>
     c = 9 \<or> c = 10 \<or> c = 11 \<or> c = 12 \<or> c = 13 \<or> c = 32 \<or> c = 160 \<or> c = 5760 \<or>
     (8192 \<le> c \<and> c \<le> 8202) \<or> c = 8232 \<or> c = 8233 \<or> c = 8239 \<or> c = 8287 \<or>
     c = 12288 \<or> c = 65279"

definition trim :: "jstring \<Rightarrow> jstring" where
  "trim s = rev (dropWhile is_space (rev (dropWhile is_space s)))"

text \<open>
  \<open>toLowerCase\<close> on the ASCII letters. Code units outside ASCII are left as they are, which
  is what ECMAScript does for Hangul, digits and punctuation; cased letters of other scripts
  are outside this model.
\<close>

definition lower_unit :: "nat \<Rightarrow> nat" where
  "lower_unit c = (if 65 \<le> c \<and> c \<le> 90 then c + 32 else c)"

definition toLowerCase :: "jstring \<Rightarrow> jstring" where
  "toLowerCase s = map lower_unit s"

fun startsWith :: "jstring \<Rightarrow> jstring \<Rightarrow> bool" where
  "startsWith s [] = True"
| "startsWith [] (y # ys) = False"
| "startsWith (x # xs) (y # ys) = (x = y \<and> startsWith xs ys)"

text \<open>\<open>str_includes s t\<close> is \<open>s.includes(t)\<close>: \<open>t\<close> occurs in \<open>s\<close> as a contiguous run.\<close>

fun str_includes :: "jstring \<Rightarrow> jstring \<Rightarrow> bool" where
  "str_includes [] t = (t = [])"
| "str_includes (x # xs) t = (startsWith (x # xs) t \<or> str_includes xs t)"

text \<open>
  The values a row holds: what \<open>JSON.parse\<close> yields for scalars. JSON has no \<open>NaN\<close> and no
  infinities, so a number is a rational; \<open>undefined\<close> is the absence of a key. \<open>JMember k\<close>
  is the member \<open>k\<close> of \<open>Object.prototype\<close> (a function, or the prototype object itself
  for \<open>__proto__\<close>): it is no JSON value, but it is what reading the key \<open>k\<close> yields on an
  object that has no key \<open>k\<close> of its own.
\<close>

datatype jsval = JNull | JBool bool | JNum rat | JStr jstring | JMember jstring

text \<open>The own properties of a row object.\<close>

type_synonym row = "jstring \<rightharpoonup> jsval"

text \<open>
  Truthiness, as the operator \<open>||\<close> tests it; \<open>None\<close> is \<open>undefined\<close>. Functions and
  objects are truthy.
\<close>

fun truthy :: "jsval option \<Rightarrow> bool" where
  "truthy None = False"
| "truthy (Some JNull) = False"
| "truthy (Some (JBool b)) = b"
| "truthy (Some (JNum n)) = (n \<noteq> 0)"
| "truthy (Some (JStr s)) = (s \<noteq> [])"
| "truthy (Some (JMember k)) = True"

text \<open>
  The names of the members of \<open>Object.prototype\<close>, which every object literal and every
  object made by \<open>JSON.parse\<close> inherits.
\<close>

definition inherited :: "jstring \<Rightarrow> bool" where
  "inherited k \<longleftrightarrow>
     k \<in> set [js ''constructor'', js ''__defineGetter__'', js ''__defineSetter__'',
              js ''hasOwnProperty'', js ''__lookupGetter__'', js ''__lookupSetter__'',
              js ''isPrototypeOf'', js ''propertyIsEnumerable'', js ''toString'',
              js ''valueOf'', js ''__proto__'', js ''toLocaleString'']"

subsection \<open>The global function isNaN\<close>

text \<open>
  \<open>isNaN(v)\<close> is \<open>ToNumber(v)\<close> being \<open>NaN\<close>. For a string that is the failure of the
  \<open>StringNumericLiteral\<close> grammar: optional white space around nothing, around a signed
  decimal literal (\<open>Infinity\<close>, digits with an optional fraction and exponent) or around an
  unsigned binary, octal or hexadecimal literal. \<open>null\<close> and the booleans convert to
  numbers; a function or an object converts to its string form, which is no numeric
  literal.
\<close>

definition is_digit :: "nat \<Rightarrow> bool" where
  "is_digit c \<longleftrightarrow> 48 \<le> c \<and> c \<le> 57"

definition is_hex_digit :: "nat \<Rightarrow> bool" where
  "is_hex_digit c \<longleftrightarrow> is_digit c \<or> (65 \<le> c \<and> c \<le> 70) \<or> (97 \<le> c \<and> c \<le> 102)"

definition is_octal_digit :: "nat \<Rightarrow> bool" where
  "is_octal_digit c \<longleftrightarrow> 48 \<le> c \<and> c \<le> 55"

definition is_binary_digit :: "nat \<Rightarrow> bool" where
  "is_binary_digit c \<longleftrightarrow> c = 48 \<or> c = 49"

definition digits1 :: "(nat \<Rightarrow> bool) \<Rightarrow> jstring \<Rightarrow> bool" where
  "digits1 d s \<longleftrightarrow> s \<noteq> [] \<and> list_all d s"

fun exponent_part :: "jstring \<Rightarrow> bool" where
  "exponent_part [] = True"
| "exponent_part (e # r) =
     ((e = 101 \<or> e = 69) \<and>
      (case r of
         [] \<Rightarrow> False
       | s # q \<Rightarrow> if s = 43 \<or> s = 45 then digits1 is_digit q else digits1 is_digit r))"

definition unsigned_decimal :: "jstring \<Rightarrow> bool" where
  "unsigned_decimal t \<longleftrightarrow>
     t = js ''Infinity'' \<or>
     (let ip = takeWhile is_digit t; r1 = dropWhile is_digit t
      in case r1 of
           [] \<Rightarrow> ip \<noteq> []
         | c # r2 \<Rightarrow>
             if c = 46
             then (ip \<noteq> [] \<or> takeWhile is_digit r2 \<noteq> []) \<and> exponent_part (dropWhile is_digit r2)
             else ip \<noteq> [] \<and> exponent_part r1)"

fun non_decimal :: "jstring \<Rightarrow> bool" where
  "non_decimal (z # p # ds) =
     (z = 48 \<and>
      (if p = 120 \<or> p = 88 then digits1 is_hex_digit ds
       else if p = 111 \<or> p = 79 then digits1 is_octal_digit ds
       else if p = 98 \<or> p = 66 then digits1 is_binary_digit ds
       else False))"
| "non_decimal _ = False"

definition str_numeric :: "jstring \<Rightarrow> bool" where
  "str_numeric s \<longleftrightarrow>
     (let t = trim s
      in t = [] \<or> non_decimal t \<or>
         (case t of
            [] \<Rightarrow> True
          | c # r \<Rightarrow> if c = 43 \<or> c = 45 then unsigned_decimal r else unsigned_decimal t))"

fun isNaN :: "jsval \<Rightarrow> bool" where
  "isNaN (JStr s) = (\<not> str_numeric s)"
| "isNaN (JMember k) = True"
| "isNaN JNull = False"
| "isNaN (JBool b) = False"
| "isNaN (JNum n) = False"

section \<open>Schema model\<close>

datatype ftype = TString | TNumber | TEmail | TPhone | TDate | TSelect | TTextarea

record validation =
  vmin :: "rat option"
  vmax :: "rat option"
  pattern :: "jstring option"

text \<open>
  A field definition. \<open>label\<close>, \<open>options\<close> and \<open>validation\<close> are optional members;
  \<open>required\<close>, \<open>readOnly\<close> and \<open>generated\<close> are tested for truthiness only, so an absent
  flag is \<open>False\<close>.
\<close>

record column =
  name :: jstring
  ftype :: ftype
  label :: "jstring option"
  required :: bool
  readOnly :: bool
  generated :: bool
  options :: "jsval list option"
  validation :: "validation option"

text \<open>The schema draft (\<open>menuData\<close>): what the AI returns and what \<open>createMenu\<close> stores.\<close>

record schema =
  menuId :: "jstring option"
  menuName :: jstring
  tableName :: "jstring option"
  description :: "jstring option"
  columns :: "column list"

section \<open>The environment\<close>

text \<open>
  What the code reads from outside: the \<open>n\<close>-th result of \<open>uuidv4()\<close>, the \<open>n\<close>-th result of
  \<open>new Date().toISOString()\<close>, and whether \<open>new RegExp(p)\<close> accepts the pattern \<open>p\<close> (it
  throws a \<open>SyntaxError\<close> otherwise). The store counts the calls made so far.
\<close>

record world =
  uuidv4 :: "nat \<Rightarrow> jstring"
  clock :: "nat \<Rightarrow> jstring"
  regexp_ok :: "jstring \<Rightarrow> bool"

text \<open>
  What the code throws: \<open>Menu not found\<close> and \<open>Row not found\<close> of the store, the
  \<open>SyntaxError\<close> of \<open>new RegExp\<close> with the pattern it rejected, the \<open>TypeError\<close> of reading
  a member of \<open>undefined\<close> or calling what is no function (\<open>columns\<close> of a schema that is
  not there, \<open>toLowerCase\<close> of a label that is not there, \<open>some\<close> of a value that is no
  array), and the error \<open>generateSchema\<close> rethrows.
\<close>

datatype error =
    MenuNotFound jstring
  | RowNotFound jsval
  | SyntaxError jstring
  | TypeError
  | GenerationFailed

section \<open>DataStore.validateRow\<close>

text \<open>
  The row object under validation: its own properties, and whether its prototype is still
  \<open>Object.prototype\<close>. \<open>get_key ob k\<close> is the read \<open>row[k]\<close>: the own property if there is
  one, else the inherited member if \<open>k\<close> names one, else \<open>undefined\<close>. \<open>set_null ob k\<close> is
  the assignment \<open>row[k] = null\<close>: it writes the own property, except that on an object
  without an own \<open>__proto__\<close> the inherited setter of that name runs instead and takes the
  prototype away.
\<close>

type_synonym obj = "row \<times> bool"

definition get_key :: "obj \<Rightarrow> jstring \<Rightarrow> jsval option" where
  "get_key ob k =
     (case fst ob k of
        Some v \<Rightarrow> Some v
      | None \<Rightarrow> if snd ob \<and> inherited k then Some (JMember k) else None)"

definition set_null :: "obj \<Rightarrow> jstring \<Rightarrow> obj" where
  "set_null ob k =
     (if fst ob k = None \<and> snd ob \<and> k = js ''__proto__'' then (fst ob, False)
      else ((fst ob)(k \<mapsto> JNull), snd ob))"

text \<open>
  One iteration of the loop over \<open>schema.columns\<close>. The row and the column are mutated in
  place by the source, so both are returned; an exception is the first component. The
  \<open>console.log\<close> calls have no effect on the store and are left out, and with them the tests
  whose only consequence is a log line (e-mail and phone format, \<open>min\<close>, \<open>max\<close>,
  \<open>regex.test\<close>); \<open>new RegExp\<close> stays, because it can throw.
\<close>

definition validateColumn :: "world \<Rightarrow> column \<Rightarrow> obj \<Rightarrow> error option \<times> obj \<times> column" where
  "validateColumn w c ob =
     (let v = get_key ob (name c);
          ob1 = (if required c \<and> \<not> generated c \<and> v = None then set_null ob (name c) else ob);
          ob2 = (if v = Some (JStr []) then set_null ob1 (name c) else ob1)
      in case get_key ob2 (name c) of
           None \<Rightarrow> (None, ob2, c)
         | Some a \<Rightarrow>
             if a = JNull then (None, ob2, c)
             else
               let ob3 = (if ftype c = TNumber \<and> isNaN a then set_null ob2 (name c) else ob2);
                   c' = (if ftype c = TSelect
                         then (case options c of
                                 None \<Rightarrow> c
                               | Some os \<Rightarrow> if a \<in> set os then c else c\<lparr>options := Some (os @ [a])\<rparr>)
                         else c)
               in case validation c of
                    None \<Rightarrow> (None, ob3, c')
                  | Some vd \<Rightarrow>
                      (case pattern vd of
                         None \<Rightarrow> (None, ob3, c')
                       | Some p \<Rightarrow>
                           if p \<noteq> [] \<and> \<not> regexp_ok w p then (Some (SyntaxError p), ob3, c')
                           else (None, ob3, c')))"

fun validateColumns :: "world \<Rightarrow> column list \<Rightarrow> obj \<Rightarrow> error option \<times> obj \<times> column list" where
  "validateColumns w [] ob = (None, ob, [])"
| "validateColumns w (c # cs) ob =
     (case validateColumn w c ob of
        (Some e, ob', c') \<Rightarrow> (Some e, ob', c' # cs)
      | (None, ob', c') \<Rightarrow>
          (case validateColumns w cs ob' of (e, ob'', cs') \<Rightarrow> (e, ob'', c' # cs')))"

text \<open>
  \<open>validateRow(row, schema)\<close> on a row built by an object literal, whose prototype is
  \<open>Object.prototype\<close>; what is stored afterwards are the own properties.
\<close>

definition validateRow :: "world \<Rightarrow> row \<Rightarrow> schema \<Rightarrow> error option \<times> row \<times> schema" where
  "validateRow w r sc =
     (case validateColumns w (columns sc) (r, True) of
        (e, ob', cs') \<Rightarrow> (e, fst ob', sc\<lparr>columns := cs'\<rparr>))"

section \<open>DataStore\<close>

text \<open>
  The menu metadata. The source's \<open>menu.schema\<close> is a reference to the object that is also
  stored under \<open>schemas\<close>, so the model keeps the schema there only.
\<close>

record menu =
  m_id :: jstring
  m_name :: jstring
  m_tableName :: "jstring option"
  m_description :: "jstring option"
  m_createdAt :: jstring
  m_updatedAt :: jstring

record store =
  menus :: "jstring \<rightharpoonup> menu"
  data :: "jstring \<rightharpoonup> row list"
  schemas :: "jstring \<rightharpoonup> schema"
  dirty :: "jstring set"
  uuid_calls :: nat
  date_calls :: nat

fun findIndex :: "('a \<Rightarrow> bool) \<Rightarrow> 'a list \<Rightarrow> nat option" where
  "findIndex p [] = None"
| "findIndex p (x # xs) =
     (if p x then Some 0 else (case findIndex p xs of None \<Rightarrow> None | Some i \<Rightarrow> Some (Suc i)))"

text \<open>
  \<open>insert(menuId, rowData)\<close>. The object literal puts \<open>id\<close> first and spreads \<open>rowData\<close>
  over it, so an \<open>id\<close> key of \<open>rowData\<close> wins whatever its value; \<open>uuidv4()\<close> is called
  whenever \<open>rowData.id\<close> is falsy.
\<close>

definition insert_row :: "world \<Rightarrow> store \<Rightarrow> jstring \<Rightarrow> row \<Rightarrow> (error + row) \<times> store" where
  "insert_row w st mid rowData =
     (case data st mid of
        None \<Rightarrow> (Inl (MenuNotFound mid), st)
      | Some rows \<Rightarrow>
          let fresh = \<not> truthy (rowData (js ''id''));
              idv = (if fresh then JStr (uuidv4 w (uuid_calls st)) else the (rowData (js ''id'')));
              r = ([js ''id'' \<mapsto> idv] ++ rowData)
                    (js ''createdAt'' \<mapsto> JStr (clock w (date_calls st)),
                     js ''updatedAt'' \<mapsto> JStr (clock w (date_calls st + 1)));
              st1 = st\<lparr>uuid_calls := uuid_calls st + (if fresh then 1 else 0),
                       date_calls := date_calls st + 2\<rparr>
          in case schemas st mid of
               None \<Rightarrow> (Inl TypeError, st1)
             | Some sc \<Rightarrow>
                 (case validateRow w r sc of
                    (Some e, r', sc') \<Rightarrow> (Inl e, st1\<lparr>schemas := (schemas st)(mid \<mapsto> sc')\<rparr>)
                  | (None, r', sc') \<Rightarrow>
                      (Inr r', st1\<lparr>data := (data st)(mid \<mapsto> rows @ [r']),
                                   schemas := (schemas st)(mid \<mapsto> sc'),
                                   dirty := insert mid (dirty st)\<rparr>)))"

text \<open>\<open>update(menuId, id, updates)\<close>; \<open>row.id === id\<close> is strict equality.\<close>

definition update :: "world \<Rightarrow> store \<Rightarrow> jstring \<Rightarrow> jsval \<Rightarrow> row \<Rightarrow> (error + row) \<times> store" where
  "update w st mid rid updates =
     (case data st mid of
        None \<Rightarrow> (Inl (MenuNotFound mid), st)
      | Some rows \<Rightarrow>
          (case findIndex (\<lambda>r. r (js ''id'') = Some rid) rows of
             None \<Rightarrow> (Inl (RowNotFound rid), st)
           | Some i \<Rightarrow>
               let old = rows ! i;
                   r = (old ++ updates)
                         (js ''id'' := old (js ''id''),
                          js ''createdAt'' := old (js ''createdAt''),
                          js ''updatedAt'' \<mapsto> JStr (clock w (date_calls st)));
                   st1 = st\<lparr>date_calls := date_calls st + 1\<rparr>
               in case schemas st mid of
                    None \<Rightarrow> (Inl TypeError, st1)
                  | Some sc \<Rightarrow>
                      (case validateRow w r sc of
                         (Some e, r', sc') \<Rightarrow> (Inl e, st1\<lparr>schemas := (schemas st)(mid \<mapsto> sc')\<rparr>)
                       | (None, r', sc') \<Rightarrow>
                           (Inr r', st1\<lparr>data := (data st)(mid \<mapsto> rows[i := r']),
                                        schemas := (schemas st)(mid \<mapsto> sc'),
                                        dirty := insert mid (dirty st)\<rparr>))))"

text \<open>
  \<open>bulkInsert(menuId, rowsData)\<close>: the loop with its \<open>try\<close>/\<open>catch\<close>; a failed entry
  keeps the input and the error whose message the source records.
\<close>

record results =
  success :: "row list"
  failed :: "(row \<times> error) list"

fun bulkLoop :: "world \<Rightarrow> jstring \<Rightarrow> row list \<Rightarrow> results \<times> store \<Rightarrow> results \<times> store" where
  "bulkLoop w mid [] (res, st) = (res, st)"
| "bulkLoop w mid (rowData # rest) (res, st) =
     (case insert_row w st mid rowData of
        (Inr r, st') \<Rightarrow> bulkLoop w mid rest (res\<lparr>success := success res @ [r]\<rparr>, st')
      | (Inl e, st') \<Rightarrow> bulkLoop w mid rest (res\<lparr>failed := failed res @ [(rowData, e)]\<rparr>, st'))"

definition bulkInsert :: "world \<Rightarrow> store \<Rightarrow> jstring \<Rightarrow> row list \<Rightarrow> results \<times> store" where
  "bulkInsert w st mid rowsData = bulkLoop w mid rowsData (\<lparr>success = [], failed = []\<rparr>, st)"

section \<open>AIService: the column reconciler\<close>

text \<open>
  The synonym dictionary of \<open>ruleBasedMatching\<close>, in the order of the source; the Hangul
  synonyms are given by their code units. \<open>synonyms_of k\<close> is \<open>synonyms[k] || []\<close>: the
  dictionary is an object literal, so for a key that names a member of \<open>Object.prototype\<close>
  the read yields that member, which is truthy and no array (\<open>None\<close>).
\<close>

definition synonyms :: "(jstring \<times> jstring list) list" where
  "synonyms =
    [(js ''name'', [[51060, 47492], [49457, 47749], [49324, 50857, 51088, 47749],
        [44256, 44061, 47749], js ''username'', js ''user_name'', js ''customer_name'',
        [47749], [49457, 54632]]),
     (js ''email'', [[51060, 47700, 51068], [47700, 51068], js ''e-mail'', js ''mail'',
        [51204, 51088, 50864, 54200]]),
     (js ''phone'', [[51204, 54868], [51204, 54868, 48264, 54840], js ''tel'',
        js ''telephone'', js ''mobile'', [55092, 45824, 54256], [50672, 46973, 52376],
        [54648, 46300, 54256]]),
     (js ''address'', [[51452, 49548], js ''addr'', [44144, 51452, 51648],
        [49548, 51116, 51648]]),
     (js ''department'', [[48512, 49436], js ''dept'', [49548, 49549], [54016]]),
     (js ''position'', [[51649, 44553], [51649, 50948], js ''title'', [54252, 51648, 49496]]),
     (js ''status'', [[49345, 53468], js ''state'', [51652, 54665, 49345, 53468],
        [52376, 47532, 49345, 53468]]),
     (js ''date'', [[45216, 51676], [51068, 51088], [51068, 49884]]),
     (js ''amount'', [[44552, 50529], [44032, 44201], js ''price'', js ''cost'',
        [48708, 50857]]),
     (js ''quantity'', [[49688, 47049], js ''qty'', [44060, 49688], [44079, 49688]]),
     (js ''description'', [[49444, 47749], [48708, 44256], js ''desc'', js ''note'',
        [47700, 47784], [45236, 50857]])]"

definition synonyms_of :: "jstring \<Rightarrow> jstring list option" where
  "synonyms_of k =
     (case map_of synonyms k of
        Some ss \<Rightarrow> Some ss
      | None \<Rightarrow> if inherited k then None else Some [])"

record match =
  source :: jstring
  target :: jstring
  confidence :: rat

text \<open>
  The inner loop of \<open>ruleBasedMatching\<close> for one source label: the targets in list order,
  the three tests on each, \<open>break\<close> at the first hit. \<open>sl\<close> is \<open>sourceLower\<close>. Two
  statements of the loop body can throw a \<open>TypeError\<close>: \<open>target.label.toLowerCase()\<close>
  on a target without a label, and \<open>targetSynonyms.some(...)\<close> when the dictionary read
  has yielded a member of \<open>Object.prototype\<close>.
\<close>

fun matchTargets :: "jstring \<Rightarrow> jstring \<Rightarrow> column list \<Rightarrow> error + match option" where
  "matchTargets src sl [] = Inr None"
| "matchTargets src sl (t # ts) =
     (case label t of
        None \<Rightarrow> Inl TypeError
      | Some lab \<Rightarrow>
          let targetLower = toLowerCase (name t);
              targetLabel = toLowerCase lab
          in if sl = targetLower \<or> sl = targetLabel
             then Inr (Some \<lparr>source = src, target = name t, confidence = 1\<rparr>)
             else (case synonyms_of targetLower of
                     None \<Rightarrow> Inl TypeError
                   | Some targetSynonyms \<Rightarrow>
                       if list_ex (\<lambda>syn. str_includes sl (toLowerCase syn) \<or>
                                          str_includes (toLowerCase syn) sl) targetSynonyms
                       then Inr (Some \<lparr>source = src, target = name t, confidence = 9 / 10\<rparr>)
                       else if str_includes sl targetLower \<or> str_includes targetLower sl \<or>
                               str_includes sl targetLabel \<or> str_includes targetLabel sl
                       then Inr (Some \<lparr>source = src, target = name t, confidence = 8 / 10\<rparr>)
                       else matchTargets src sl ts))"

text \<open>The outer loop: the first exception ends it.\<close>

fun ruleBasedMatching :: "jstring list \<Rightarrow> column list \<Rightarrow> error + match list" where
  "ruleBasedMatching [] targetColumns = Inr []"
| "ruleBasedMatching (src # rest) targetColumns =
     (case matchTargets src (trim (toLowerCase src)) targetColumns of
        Inl e \<Rightarrow> Inl e
      | Inr found \<Rightarrow>
          (case ruleBasedMatching rest targetColumns of
             Inl e \<Rightarrow> Inl e
           | Inr matches \<Rightarrow>
               Inr (case found of None \<Rightarrow> matches | Some m \<Rightarrow> m # matches)))"

text \<open>
  The AI Oracle, whichever provider is configured: it is asked with a prompt made of the
  unmatched labels and of the name and label of every schema column, and it either throws
  or returns a JSON object, whose \<open>matches\<close> member may be missing.
\<close>

datatype 'a reply = Throws | Returns 'a

type_synonym match_oracle =
  "jstring list \<Rightarrow> (jstring \<times> jstring option) list \<Rightarrow> match list option reply"

text \<open>
  \<open>matchColumns\<close> returns the matches or throws; the second component of the model is the
  list of the Oracle invocations made, each with the labels it was asked about. The rule
  pass runs before the \<open>try\<close> block, so its exception leaves \<open>matchColumns\<close>. Spreading a
  missing \<open>result.matches\<close> throws inside the \<open>try\<close> block and ends in the \<open>catch\<close> like a
  failed call.
\<close>

definition matchColumns ::
  "match_oracle \<Rightarrow> jstring list \<Rightarrow> schema \<Rightarrow> (error + match list) \<times> jstring list list" where
  "matchColumns oracle sourceColumns sc =
     (case ruleBasedMatching sourceColumns (columns sc) of
        Inl e \<Rightarrow> (Inl e, [])
      | Inr ruleBasedMatches \<Rightarrow>
          let matchedSources = map source ruleBasedMatches;
              unmatched = filter (\<lambda>c. c \<notin> set matchedSources) sourceColumns
          in if length unmatched = 0 then (Inr ruleBasedMatches, [])
             else (case oracle unmatched (map (\<lambda>c. (name c, label c)) (columns sc)) of
                     Returns (Some ms) \<Rightarrow> (Inr (ruleBasedMatches @ ms), [unmatched])
                   | Returns None \<Rightarrow> (Inr ruleBasedMatches, [unmatched])
                   | Throws \<Rightarrow> (Inr ruleBasedMatches, [unmatched])))"

text \<open>
  \<open>generateSchema(prompt)\<close>, given what the configured provider did with the prompt: it
  threw, or it returned the parsed schema draft. The three generated columns are added by
  name: \<open>id\<close> in front, \<open>createdAt\<close> and \<open>updatedAt\<close> at the end. Any failure is rethrown as
  a new \<open>Error\<close>.
\<close>

definition id_column :: column where
  "id_column =
     \<lparr>name = js ''id'', ftype = TString, label = Some (js ''ID''), required = True, readOnly = True,
      generated = True, options = None, validation = None\<rparr>"

definition createdAt_column :: column where
  "createdAt_column =
     \<lparr>name = js ''createdAt'', ftype = TDate, label = Some [49373, 49457, 51068, 49884],
      required = True, readOnly = True, generated = True, options = None, validation = None\<rparr>"

definition updatedAt_column :: column where
  "updatedAt_column =
     \<lparr>name = js ''updatedAt'', ftype = TDate, label = Some [49688, 51221, 51068, 49884],
      required = True, readOnly = True, generated = True, options = None, validation = None\<rparr>"

definition generateSchema :: "schema reply \<Rightarrow> error + schema" where
  "generateSchema r =
     (case r of
        Throws \<Rightarrow> Inl GenerationFailed
      | Returns result \<Rightarrow>
          let cs1 = (if find (\<lambda>col. name col = js ''id'') (columns result) = None
                     then id_column # columns result else columns result);
              cs2 = (if find (\<lambda>col. name col = js ''createdAt'') cs1 = None
                     then cs1 @ [createdAt_column] else cs1);
              cs3 = (if find (\<lambda>col. name col = js ''updatedAt'') cs2 = None
                     then cs2 @ [updatedAt_column] else cs2)
          in Inr (result\<lparr>columns := cs3\<rparr>))"


section \<open>DataStore: menus\<close>

text \<open>
  \<open>generateMenuId(menuName)\<close>: the slug (lower case, every run of white space replaced by an
  underscore, everything outside \<open>[a-z0-9_]\<close> and the Hangul syllables removed), then the
  \<open>while\<close> loop that appends \<open>_1\<close>, \<open>_2\<close>, ... while the candidate is a key of \<open>menus\<close>. The
  loop is a partial function: \<open>None\<close> is its not returning.
\<close>

function decimal :: "nat \<Rightarrow> jstring" where
  "decimal n = (if n < 10 then [48 + n] else decimal (n div 10) @ [48 + n mod 10])"
  by pat_completeness auto
termination
  by (relation "measure (\<lambda>n. n)") auto

declare decimal.simps [simp del]

function underscore_spaces :: "jstring \<Rightarrow> jstring" where
  "underscore_spaces [] = []"
| "underscore_spaces (c # cs) =
     (if is_space c then 95 # underscore_spaces (dropWhile is_space cs)
      else c # underscore_spaces cs)"
  by pat_completeness auto
termination
  by (relation "measure length") (auto simp: less_Suc_eq_le length_dropWhile_le)

definition slug_unit :: "nat \<Rightarrow> bool" where
  "slug_unit c \<longleftrightarrow>
     (97 \<le> c \<and> c \<le> 122) \<or> (48 \<le> c \<and> c \<le> 57) \<or> c = 95 \<or> (44032 \<le> c \<and> c \<le> 55203)"

definition slugify :: "jstring \<Rightarrow> jstring" where
  "slugify nm = filter slug_unit (underscore_spaces (toLowerCase nm))"

partial_function (option) suffix_loop ::
  "(jstring \<Rightarrow> bool) \<Rightarrow> jstring \<Rightarrow> jstring \<Rightarrow> nat \<Rightarrow> jstring option" where
  "suffix_loop has slug mid counter =
     (if has mid then suffix_loop has slug (slug @ [95] @ decimal counter) (counter + 1)
      else Some mid)"

declare suffix_loop.simps [code]

definition generateMenuId :: "(jstring \<rightharpoonup> menu) \<Rightarrow> jstring \<Rightarrow> jstring option" where
  "generateMenuId ms nm =
     suffix_loop (\<lambda>k. ms k \<noteq> None) (slugify nm) (slugify nm) 1"

text \<open>
  \<open>createMenu(menuData)\<close>; \<open>menuData.menuId || ...\<close> takes the draft's id unless it is
  missing or the empty string. The draft object itself becomes the stored schema.
\<close>

definition createMenu :: "world \<Rightarrow> store \<Rightarrow> schema \<Rightarrow> (menu \<times> store) option" where
  "createMenu w st menuData =
     (case (if truthy (map_option JStr (menuId menuData)) then menuId menuData
            else generateMenuId (menus st) (menuName menuData)) of
        None \<Rightarrow> None
      | Some mid \<Rightarrow>
          let m = \<lparr>m_id = mid, m_name = menuName menuData, m_tableName = tableName menuData,
                   m_description = description menuData,
                   m_createdAt = clock w (date_calls st),
                   m_updatedAt = clock w (date_calls st + 1)\<rparr>
          in Some (m, st\<lparr>menus := (menus st)(mid \<mapsto> m),
                         schemas := (schemas st)(mid \<mapsto> menuData),
                         data := (data st)(mid \<mapsto> []),
                         dirty := insert mid (dirty st),
                         date_calls := date_calls st + 2\<rparr>))"


section \<open>Reference functions for the properties\<close>

text \<open>
  What \<open>bulkInsert\<close> is meant to do, in the words of its contract: every input row is
  attempted with \<open>insert\<close>, in order, on the store its predecessors left behind, whatever
  their outcome. \<open>succeeded\<close> and \<open>rejected\<close> split the outcomes.
\<close>

fun attempt_each ::
  "world \<Rightarrow> jstring \<Rightarrow> row list \<Rightarrow> store \<Rightarrow> (row \<times> (error + row)) list \<times> store" where
  "attempt_each w mid [] st = ([], st)"
| "attempt_each w mid (d # ds) st =
     (case insert_row w st mid d of
        (out, st') \<Rightarrow>
          (case attempt_each w mid ds st' of (outs, st'') \<Rightarrow> ((d, out) # outs, st'')))"

fun succeeded :: "(row \<times> (error + row)) list \<Rightarrow> row list" where
  "succeeded [] = []"
| "succeeded ((d, Inr r) # outs) = r # succeeded outs"
| "succeeded ((d, Inl e) # outs) = succeeded outs"

fun rejected :: "(row \<times> (error + row)) list \<Rightarrow> (row \<times> error) list" where
  "rejected [] = []"
| "rejected ((d, Inr r) # outs) = rejected outs"
| "rejected ((d, Inl e) # outs) = (d, e) # rejected outs"

text \<open>
  The three rules of the rule pass, each as a relation between the normalised source label
  and a target field; \<open>related\<close> is their disjunction and \<open>grade\<close> the confidence of the
  first rule, in priority order, that holds.
\<close>

definition exact_rule :: "jstring \<Rightarrow> column \<Rightarrow> bool" where
  "exact_rule sl t \<longleftrightarrow>
     sl = toLowerCase (name t) \<or> Some sl = map_option toLowerCase (label t)"

definition synonym_rule :: "jstring \<Rightarrow> column \<Rightarrow> bool" where
  "synonym_rule sl t \<longleftrightarrow>
     (case map_of synonyms (toLowerCase (name t)) of
        None \<Rightarrow> False
      | Some ss \<Rightarrow>
          list_ex (\<lambda>syn. str_includes sl (toLowerCase syn) \<or> str_includes (toLowerCase syn) sl) ss)"

definition substring_rule :: "jstring \<Rightarrow> column \<Rightarrow> bool" where
  "substring_rule sl t \<longleftrightarrow>
     str_includes sl (toLowerCase (name t)) \<or> str_includes (toLowerCase (name t)) sl \<or>
     (case label t of
        None \<Rightarrow> False
      | Some lab \<Rightarrow> str_includes sl (toLowerCase lab) \<or> str_includes (toLowerCase lab) sl)"

text \<open>
  A target field the rule pass can handle: it has a label, and its lower-cased name is not
  the name of a member of \<open>Object.prototype\<close>.
\<close>

definition plain_target :: "column \<Rightarrow> bool" where
  "plain_target t \<longleftrightarrow> label t \<noteq> None \<and> \<not> inherited (toLowerCase (name t))"

definition related :: "jstring \<Rightarrow> column \<Rightarrow> bool" where
  "related sl t \<longleftrightarrow> exact_rule sl t \<or> synonym_rule sl t \<or> substring_rule sl t"

definition grade :: "jstring \<Rightarrow> column \<Rightarrow> rat" where
  "grade sl t = (if exact_rule sl t then 1 else if synonym_rule sl t then 9 / 10 else 8 / 10)"

text \<open>The rule pass for one label, said with \<open>find\<close>: the first related target wins.\<close>

definition first_related :: "jstring \<Rightarrow> column list \<Rightarrow> match option" where
  "first_related src ts =
     map_option
       (\<lambda>t. \<lparr>source = src, target = name t, confidence = grade (trim (toLowerCase src)) t\<rparr>)
       (find (related (trim (toLowerCase src))) ts)"

definition rule_matched :: "column list \<Rightarrow> jstring \<Rightarrow> bool" where
  "rule_matched ts src \<longleftrightarrow> list_ex (related (trim (toLowerCase src))) ts"

text \<open>The matches an Oracle reply contributes: none unless it returned a \<open>matches\<close> list.\<close>

definition oracle_matches :: "match list option reply \<Rightarrow> match list" where
  "oracle_matches r = (case r of Returns (Some ms) \<Rightarrow> ms | _ \<Rightarrow> [])"

text \<open>Whether a column list has a field of a given name; reading a decimal numeral back.\<close>

definition has_field :: "column list \<Rightarrow> jstring \<Rightarrow> bool" where
  "has_field cs n \<longleftrightarrow> list_ex (\<lambda>c. name c = n) cs"

definition undecimal :: "jstring \<Rightarrow> nat" where
  "undecimal s = foldl (\<lambda>a c. 10 * a + (c - 48)) 0 s"

text \<open>
  What the row validator does to one field, in the words of its rules: \<open>coerce\<close> is the
  effect of one column on the value of its field (an absent required non-generated field,
  the empty string and a non-numeric value of a number field become null), \<open>checked\<close>
  says that the value reaches the type rules (present, not null, not the empty string),
  \<open>pattern_error\<close> is the exception \<open>new RegExp\<close> raises for the column's pattern,
  \<open>learn\<close> is the column after a select field has seen the value, and \<open>normalise\<close>
  applies, in schema order, every column that bears the field's name. \<open>shape\<close> forgets
  the options, the only part of a column that validation changes. The validator accepts a
  value for a field (\<open>field_settled\<close>) when no column of that name would change it.
\<close>

definition coerce :: "column \<Rightarrow> jsval option \<Rightarrow> jsval option" where
  "coerce c v =
     (case v of
        None \<Rightarrow> if required c \<and> \<not> generated c then Some JNull else None
      | Some a \<Rightarrow>
          if a = JStr [] then Some JNull
          else if a \<noteq> JNull \<and> ftype c = TNumber \<and> isNaN a then Some JNull
          else Some a)"

definition checked :: "jsval option \<Rightarrow> bool" where
  "checked v \<longleftrightarrow> (case v of None \<Rightarrow> False | Some a \<Rightarrow> a \<noteq> JNull \<and> a \<noteq> JStr [])"

definition pattern_error :: "world \<Rightarrow> column \<Rightarrow> error option" where
  "pattern_error w c =
     (case validation c of
        None \<Rightarrow> None
      | Some vd \<Rightarrow>
          (case pattern vd of
             None \<Rightarrow> None
           | Some p \<Rightarrow> if p \<noteq> [] \<and> \<not> regexp_ok w p then Some (SyntaxError p) else None))"

definition learn :: "column \<Rightarrow> jsval option \<Rightarrow> column" where
  "learn c v =
     (case v of
        None \<Rightarrow> c
      | Some a \<Rightarrow>
          if checked v \<and> ftype c = TSelect
          then (case options c of
                  None \<Rightarrow> c
                | Some os \<Rightarrow> if a \<in> set os then c else c\<lparr>options := Some (os @ [a])\<rparr>)
          else c)"

definition normalise :: "column list \<Rightarrow> jstring \<Rightarrow> jsval option \<Rightarrow> jsval option" where
  "normalise cs k v = foldl (\<lambda>u c. if name c = k then coerce c u else u) v cs"

definition shape :: "column \<Rightarrow> column" where
  "shape c = c\<lparr>options := None\<rparr>"

definition field_settled :: "column list \<Rightarrow> jstring \<Rightarrow> jsval option \<Rightarrow> bool" where
  "field_settled cs k v \<longleftrightarrow> list_all (\<lambda>c. name c = k \<longrightarrow> coerce c v = v) cs"

text \<open>
  The row object after one column: the field of the column's name is set to null when the
  column's rules change the value read there.
\<close>

definition settle :: "column \<Rightarrow> obj \<Rightarrow> obj" where
  "settle c ob =
     (if coerce c (get_key ob (name c)) = get_key ob (name c) then ob
      else set_null ob (name c))"

text \<open>
  The object \<open>insert\<close> builds before validation and the one \<open>update\<close> builds; the ids
  of a row list; the id \<open>insert\<close> puts into the row; an entity each of whose stored ids
  the validator accepts under the entity's schema.
\<close>

definition raw_row :: "world \<Rightarrow> store \<Rightarrow> row \<Rightarrow> row" where
  "raw_row w st d =
     (d(js ''id'' := (case d (js ''id'') of
                        None \<Rightarrow> Some (JStr (uuidv4 w (uuid_calls st)))
                      | Some v \<Rightarrow> Some v)))
       (js ''createdAt'' \<mapsto> JStr (clock w (date_calls st)),
        js ''updatedAt'' \<mapsto> JStr (clock w (date_calls st + 1)))"

definition merged_row :: "world \<Rightarrow> store \<Rightarrow> row \<Rightarrow> row \<Rightarrow> row" where
  "merged_row w st old updates =
     (old ++ updates)
       (js ''id'' := old (js ''id''),
        js ''createdAt'' := old (js ''createdAt''),
        js ''updatedAt'' \<mapsto> JStr (clock w (date_calls st)))"

definition ids :: "row list \<Rightarrow> jsval option list" where
  "ids rs = map (\<lambda>r. r (js ''id'')) rs"


definition ids_accepted :: "store \<Rightarrow> jstring \<Rightarrow> bool" where
  "ids_accepted st mid \<longleftrightarrow>
     (case schemas st mid of
        None \<Rightarrow> True
      | Some sc \<Rightarrow>
          (case data st mid of
             None \<Rightarrow> True
           | Some rs \<Rightarrow> list_all (\<lambda>r. field_settled (columns sc) (js ''id'') (r (js ''id''))) rs))"

text \<open>Sequences of insert and update operations, each applied whatever the last one did.\<close>

datatype op = Insert jstring row | Update jstring jsval row

fun apply_op :: "world \<Rightarrow> store \<Rightarrow> op \<Rightarrow> store" where
  "apply_op w st (Insert mid d) = snd (insert_row w st mid d)"
| "apply_op w st (Update mid rid u) = snd (update w st mid rid u)"

definition run :: "world \<Rightarrow> store \<Rightarrow> op list \<Rightarrow> store" where
  "run w st ops = foldl (apply_op w) st ops"

section \<open>Example data\<close>

text \<open>
  A concrete environment and small stores on which the theorems are instantiated. In
  \<open>w0\<close> the pattern \<open>[\<close> is rejected by \<open>new RegExp\<close>, as it is by every ECMAScript engine
  (unterminated character class).
\<close>

definition w0 :: world where
  "w0 = \<lparr>uuidv4 = (\<lambda>n. js ''uuid-'' @ [48 + n]),
         clock = (\<lambda>n. js ''2026-01-01T00:00:0'' @ [48 + n] @ js ''Z''),
         regexp_ok = (\<lambda>p. p \<noteq> js ''['')\<rparr>"

definition field :: "jstring \<Rightarrow> ftype \<Rightarrow> bool \<Rightarrow> column" where
  "field n t req =
     \<lparr>name = n, ftype = t, label = Some n, required = req, readOnly = False, generated = False,
      options = None, validation = None\<rparr>"

definition draft :: "jstring \<Rightarrow> column list \<Rightarrow> schema" where
  "draft n cs =
     \<lparr>menuId = None, menuName = n, tableName = None, description = None, columns = cs\<rparr>"

definition entity :: "jstring \<Rightarrow> column list \<Rightarrow> row list \<Rightarrow> store" where
  "entity mid cs rs =
     \<lparr>menus = [mid \<mapsto>
         \<lparr>m_id = mid, m_name = mid, m_tableName = None, m_description = None,
          m_createdAt = js ''2025-12-31T00:00:00Z'',
          m_updatedAt = js ''2025-12-31T00:00:00Z''\<rparr>],
      data = [mid \<mapsto> rs], schemas = [mid \<mapsto> draft mid cs],
      dirty = {}, uuid_calls = 0, date_calls = 0\<rparr>"

definition coded :: "column list" where
  "coded = [field (js ''name'') TString True,
            (field (js ''code'') TString False)
              \<lparr>validation := Some \<lparr>vmin = None, vmax = None, pattern = Some (js ''['')\<rparr>\<rparr>]"

text \<open>Target fields for the reconciler, and two Oracles: one that fails, one that answers.\<close>

definition named :: "column list" where
  "named = [field (js ''username'') TString True, field (js ''name'') TString True]"

definition titled :: "column list" where
  "titled = [field (js ''position'') TString True, field (js ''title'') TString True,
             field (js ''name'') TString True]"

definition silent :: match_oracle where
  "silent ls fs = Throws"

definition advising :: match_oracle where
  "advising ls fs =
     Returns (Some (map (\<lambda>l. \<lparr>source = l, target = js ''name'', confidence = 3 / 4\<rparr>) ls))"

text \<open>The store before any menu exists, and a store with one entity holding one row.\<close>

definition empty_store :: store where
  "empty_store =
     \<lparr>menus = Map.empty, data = Map.empty, schemas = Map.empty, dirty = {},
      uuid_calls = 0, date_calls = 0\<rparr>"

definition customers :: store where
  "customers =
     \<lparr>menus = [js ''customers'' \<mapsto>
         \<lparr>m_id = js ''customers'', m_name = js ''Customers'', m_tableName = None,
          m_description = None, m_createdAt = js ''2025-12-31T00:00:00Z'',
          m_updatedAt = js ''2025-12-31T00:00:00Z''\<rparr>],
      data = [js ''customers'' \<mapsto>
         [[js ''id'' \<mapsto> JStr (js ''r1''), js ''name'' \<mapsto> JStr (js ''Kim''),
           js ''createdAt'' \<mapsto> JStr (js ''2025-12-31T00:00:00Z''),
           js ''updatedAt'' \<mapsto> JStr (js ''2025-12-31T00:00:00Z'')]]],
      schemas = [js ''customers'' \<mapsto> draft (js ''Customers'') [field (js ''name'') TString True]],
      dirty = {}, uuid_calls = 0, date_calls = 0\<rparr>"

text \<open>A select field with one option, and an entity with the injected \<open>id\<close> column.\<close>

definition choices :: "column list" where
  "choices = [(field (js ''status'') TSelect False)\<lparr>options := Some [JStr (js ''open'')]\<rparr>]"


text \<open>
  An entity with the columns \<open>generateSchema\<close> gives it and one stored row, a sequence of
  operations on it, and the same entity after its schema has been replaced by one whose
  \<open>id\<close> column is a number.
\<close>

definition generated_columns :: "column list" where
  "generated_columns =
     [id_column, field (js ''name'') TString True, createdAt_column, updatedAt_column]"

definition kim :: row where
  "kim = [js ''id'' \<mapsto> JStr (js ''r1''), js ''name'' \<mapsto> JStr (js ''Kim''),
          js ''createdAt'' \<mapsto> JStr (js ''2025-12-31T00:00:00Z''),
          js ''updatedAt'' \<mapsto> JStr (js ''2025-12-31T00:00:00Z'')]"

definition clients :: store where
  "clients = entity (js ''clients'') generated_columns [kim]"


definition retyped :: store where
  "retyped =
     entity (js ''clients'')
       [id_column\<lparr>ftype := TNumber\<rparr>, field (js ''name'') TString True, createdAt_column,
        updatedAt_column]
       [kim]"

section \<open>bulkInsert\<close>

lemma bulkLoop_attempt_each:
  "bulkLoop w mid rows (res, st) =
     (res\<lparr>success := success res @ succeeded (fst (attempt_each w mid rows st)),
          failed := failed res @ rejected (fst (attempt_each w mid rows st))\<rparr>,
      snd (attempt_each w mid rows st))"
proof (induction rows arbitrary: res st)
  case Nil
  show ?case by simp
next
  case (Cons d ds)
  obtain out st' where ins: "insert_row w st mid d = (out, st')"
    by (cases "insert_row w st mid d")
  obtain outs st'' where rest: "attempt_each w mid ds st' = (outs, st'')"
    by (cases "attempt_each w mid ds st'")
  show ?case
  proof (cases out)
    case (Inl e)
    with ins rest Cons.IH [of "res\<lparr>failed := failed res @ [(d, e)]\<rparr>" st'] show ?thesis
      by simp
  next
    case (Inr r)
    with ins rest Cons.IH [of "res\<lparr>success := success res @ [r]\<rparr>" st'] show ?thesis
      by simp
  qed
qed

lemma attempt_each_inputs: "map fst (fst (attempt_each w mid rows st)) = rows"
proof (induction rows arbitrary: st)
  case Nil
  show ?case by simp
next
  case (Cons d ds)
  obtain out st' where ins: "insert_row w st mid d = (out, st')"
    by (cases "insert_row w st mid d")
  obtain outs st'' where rest: "attempt_each w mid ds st' = (outs, st'')"
    by (cases "attempt_each w mid ds st'")
  from Cons.IH [of st'] rest have "map fst outs = ds" by simp
  with ins rest show ?case by simp
qed

lemma succeeded_rejected_length:
  "length (succeeded outs) + length (rejected outs) = length outs"
  by (induction outs rule: succeeded.induct) auto

lemma attempt_each_length: "length (fst (attempt_each w mid rows st)) = length rows"
  using attempt_each_inputs [of w mid rows st] by (metis length_map)

text \<open>
  Claim C5. \<open>bulkInsert\<close> is a total function (it has no error result): for every entity id
  and every list of raw rows it returns the rows of the successful inserts and, for the
  failed ones, the input with its error. It attempts every input row, in order, each on the
  store left by the rows before it whether they failed or not (\<open>attempt_each\<close>), so a
  failure never keeps a later row from being inserted, and the two lists together are as
  long as the input.
\<close>

theorem bulkInsert_attempts_every_row:
  "bulkInsert w st mid rows =
     (\<lparr>success = succeeded (fst (attempt_each w mid rows st)),
       failed = rejected (fst (attempt_each w mid rows st))\<rparr>,
      snd (attempt_each w mid rows st)) \<and>
   map fst (fst (attempt_each w mid rows st)) = rows \<and>
   length (success (fst (bulkInsert w st mid rows))) +
     length (failed (fst (bulkInsert w st mid rows))) = length rows"
  by (simp add: bulkInsert_def bulkLoop_attempt_each attempt_each_inputs
      succeeded_rejected_length attempt_each_length)

text \<open>
  On an entity whose \<open>code\<close> field has an invalid pattern, the first of two rows fails and
  the second is inserted all the same.
\<close>

theorem bulkInsert_attempts_every_row_witness:
  "failed (fst (bulkInsert w0 (entity (js ''m'') coded []) (js ''m'')
       [[js ''code'' \<mapsto> JStr (js ''x'')], [js ''name'' \<mapsto> JStr (js ''Lee'')]])) =
     [([js ''code'' \<mapsto> JStr (js ''x'')], SyntaxError (js ''[''))] \<and>
   length (success (fst (bulkInsert w0 (entity (js ''m'') coded []) (js ''m'')
       [[js ''code'' \<mapsto> JStr (js ''x'')], [js ''name'' \<mapsto> JStr (js ''Lee'')]]))) = 1"
proof -
  let ?b = "bulkInsert w0 (entity (js ''m'') coded []) (js ''m'')
       [[js ''code'' \<mapsto> JStr (js ''x'')], [js ''name'' \<mapsto> JStr (js ''Lee'')]]"
  have f: "failed (fst ?b) = [([js ''code'' \<mapsto> JStr (js ''x'')], SyntaxError (js ''[''))]"
    by (simp add: bulkInsert_def insert_row_def update_def validateRow_def validateColumn_def
        get_key_def set_null_def inherited_def Let_def w0_def field_def draft_def entity_def
        coded_def)
  have "length (success (fst ?b)) + length (failed (fst ?b)) =
      length [[js ''code'' \<mapsto> JStr (js ''x'')], [js ''name'' \<mapsto> JStr (js ''Lee'')]]"
    using bulkInsert_attempts_every_row
      [of w0 "entity (js ''m'') coded []" "js ''m''"
          "[[js ''code'' \<mapsto> JStr (js ''x'')], [js ''name'' \<mapsto> JStr (js ''Lee'')]]"]
    by blast
  with f show ?thesis by simp
qed

section \<open>The rule pass of the column reconciler\<close>

lemma synonyms_of_plain:
  "\<not> inherited k \<Longrightarrow>
   synonyms_of k = Some (case map_of synonyms k of None \<Rightarrow> [] | Some ss \<Rightarrow> ss)"
  by (simp add: synonyms_of_def split: option.splits)

lemma matchTargets_find:
  "list_all plain_target ts \<Longrightarrow>
   matchTargets src sl ts =
     Inr (map_option (\<lambda>t. \<lparr>source = src, target = name t, confidence = grade sl t\<rparr>)
            (find (related sl) ts))"
proof (induction ts)
  case Nil
  show ?case by simp
next
  case (Cons t ts)
  from Cons.prems have head: "plain_target t" and rest: "list_all plain_target ts"
    by simp_all
  from head obtain lab where lab: "label t = Some lab"
    and plain: "\<not> inherited (toLowerCase (name t))"
    by (auto simp: plain_target_def)
  from Cons.IH [OF rest] lab synonyms_of_plain [OF plain] show ?case
    by (auto simp: related_def grade_def exact_rule_def synonym_rule_def substring_rule_def
        Let_def split: option.splits)
qed

lemma matchTargets_first_related:
  "list_all plain_target ts \<Longrightarrow>
   matchTargets src (trim (toLowerCase src)) ts = Inr (first_related src ts)"
  by (simp add: matchTargets_find first_related_def)

lemma ruleBasedMatching_map_filter:
  "list_all plain_target ts \<Longrightarrow>
   ruleBasedMatching srcs ts = Inr (List.map_filter (\<lambda>s. first_related s ts) srcs)"
  by (induction srcs)
     (auto simp: matchTargets_first_related List.map_filter_simps split: option.splits)

lemma first_related_None: "first_related src ts = None \<longleftrightarrow> \<not> rule_matched ts src"
  by (auto simp: first_related_def rule_matched_def find_None_iff list_ex_iff)

lemma first_related_source: "first_related src ts = Some m \<Longrightarrow> source m = src"
  by (auto simp: first_related_def)

lemma first_related_sources:
  "map source (List.map_filter (\<lambda>s. first_related s ts) srcs) = filter (rule_matched ts) srcs"
proof (induction srcs)
  case Nil
  show ?case by (simp add: List.map_filter_simps)
next
  case (Cons s srcs)
  show ?case
  proof (cases "first_related s ts")
    case None
    moreover from None have "\<not> rule_matched ts s"
      using first_related_None [of s ts] by blast
    ultimately show ?thesis using Cons by (simp add: List.map_filter_simps)
  next
    case (Some m)
    moreover from Some have "rule_matched ts s"
      using first_related_None [of s ts] by auto
    moreover from Some have "source m = s" by (rule first_related_source)
    ultimately show ?thesis using Cons by (simp add: List.map_filter_simps)
  qed
qed

lemma unmatched_filter:
  "filter (\<lambda>c. c \<notin> set (map source (List.map_filter (\<lambda>s. first_related s ts) srcs))) srcs =
     filter (\<lambda>c. \<not> rule_matched ts c) srcs"
  by (rule filter_cong) (auto simp: first_related_sources)

lemma startsWith_iff: "startsWith s t \<longleftrightarrow> (\<exists>q. s = t @ q)"
  by (induction s t rule: startsWith.induct) auto

lemma str_includes_iff: "str_includes s t \<longleftrightarrow> (\<exists>p q. s = p @ t @ q)"
proof (induction s)
  case Nil
  show ?case by auto
next
  case (Cons x xs)
  show ?case
  proof
    assume "str_includes (x # xs) t"
    then consider "startsWith (x # xs) t" | "str_includes xs t" by auto
    then show "\<exists>p q. x # xs = p @ t @ q"
    proof cases
      case 1
      then obtain q where "x # xs = t @ q" using startsWith_iff by blast
      then have "x # xs = [] @ t @ q" by simp
      then show ?thesis by blast
    next
      case 2
      with Cons obtain p q where "xs = p @ t @ q" by blast
      then have "x # xs = (x # p) @ t @ q" by simp
      then show ?thesis by blast
    qed
  next
    assume "\<exists>p q. x # xs = p @ t @ q"
    then obtain p q where pq: "x # xs = p @ t @ q" by blast
    show "str_includes (x # xs) t"
    proof (cases p)
      case Nil
      with pq have "startsWith (x # xs) t" using startsWith_iff by auto
      then show ?thesis by simp
    next
      case (Cons y p')
      with pq have "xs = p' @ t @ q" by simp
      with Cons.IH have "str_includes xs t" by blast
      then show ?thesis by simp
    qed
  qed
qed

lemma trim_inside: "\<exists>p q. s = p @ trim s @ q"
proof -
  let ?d = "dropWhile is_space s"
  have "s = takeWhile is_space s @ ?d" by simp
  moreover have "?d = trim s @ rev (takeWhile is_space (rev ?d))"
  proof -
    have "rev (dropWhile is_space (rev ?d)) @ rev (takeWhile is_space (rev ?d)) =
        rev (takeWhile is_space (rev ?d) @ dropWhile is_space (rev ?d))"
      by (simp only: rev_append)
    also have "\<dots> = rev (rev ?d)" by (simp only: takeWhile_dropWhile_id)
    also have "\<dots> = ?d" by simp
    finally show ?thesis by (simp only: trim_def)
  qed
  ultimately have "s = takeWhile is_space s @ trim s @ rev (takeWhile is_space (rev ?d))"
    by metis
  then show ?thesis by blast
qed

lemma str_includes_trim: "str_includes s (trim s)"
  using trim_inside [of s] by (simp add: str_includes_iff)

lemma own_name_related: "related (trim (toLowerCase (name t))) t"
  by (simp add: related_def substring_rule_def str_includes_trim)

lemma named_label_rule_matched: "src \<in> name ` set ts \<Longrightarrow> rule_matched ts src"
  using own_name_related by (auto simp: rule_matched_def list_ex_iff)

lemma matchColumns_cases:
  assumes "list_all plain_target (columns sc)"
  shows "matchColumns ai srcs sc =
     (if list_all (rule_matched (columns sc)) srcs
      then (Inr (List.map_filter (\<lambda>s. first_related s (columns sc)) srcs), [])
      else (Inr (List.map_filter (\<lambda>s. first_related s (columns sc)) srcs @
                 oracle_matches
                   (ai (filter (\<lambda>s. \<not> rule_matched (columns sc) s) srcs)
                      (map (\<lambda>c. (name c, label c)) (columns sc)))),
            [filter (\<lambda>s. \<not> rule_matched (columns sc) s) srcs]))"
proof -
  have e: "(filter (\<lambda>s. \<not> rule_matched (columns sc) s) srcs = []) \<longleftrightarrow>
      list_all (rule_matched (columns sc)) srcs"
    by (auto simp: filter_empty_conv list_all_iff)
  show ?thesis
    unfolding matchColumns_def ruleBasedMatching_map_filter [OF assms] sum.case Let_def
      unmatched_filter length_0_conv e
    by (simp add: oracle_matches_def split: reply.splits option.splits)
qed

lemma exact_confidence:
  "list_all (\<lambda>s. case find (related (trim (toLowerCase s))) ts of
                     None \<Rightarrow> False | Some t \<Rightarrow> exact_rule (trim (toLowerCase s)) t) srcs \<Longrightarrow>
   map confidence (List.map_filter (\<lambda>s. first_related s ts) srcs) = map (\<lambda>s. 1) srcs"
  by (induction srcs)
     (auto simp: List.map_filter_simps first_related_def grade_def split: option.splits)

text \<open>
  Claim C3 says that the three rules are tried in a global priority order, so that a label
  equal to a target's name is always matched to such a target at confidence 1.0. The loops
  are nested the other way round: the label \<open>name\<close> equals the second target's name, but
  the first target, \<open>username\<close>, contains it, and the rule pass stops there at 0.8.
\<close>

theorem rule_pass_prefers_earlier_target_counterexample:
  "exact_rule (trim (toLowerCase (js ''name''))) (field (js ''name'') TString True) \<and>
   list_all plain_target named \<and>
   ruleBasedMatching [js ''name''] named =
     Inr [\<lparr>source = js ''name'', target = js ''username'', confidence = 8 / 10\<rparr>]"
  by (simp add: named_def field_def exact_rule_def plain_target_def inherited_def
      toLowerCase_def lower_unit_def trim_def is_space_def synonyms_of_def synonyms_def)

text \<open>
  Claim C3, amended. For every list of source labels and every list of target fields each
  of which has a label and a name that, in lower case, is not the name of a member of
  \<open>Object.prototype\<close>, the rule pass returns, and it scans the targets in list order for
  each label and tests, on each target, exact equality with the name or label, then the
  synonym table, then substring containment: the first target related to the label by any
  of the three rules wins, with the confidence of the first rule in priority order that
  holds for this target, and a label without a related target yields no match
  (\<open>first_related\<close>). So a label that exactly equals a target's name or label is matched
  to that target at confidence 1.0 when that target is the first one related to the label.
\<close>

theorem rule_pass_first_related_target_wins:
  assumes "list_all plain_target ts"
  shows "ruleBasedMatching srcs ts = Inr (List.map_filter (\<lambda>s. first_related s ts) srcs) \<and>
         (\<forall>s t. find (related (trim (toLowerCase s))) ts = Some t \<and>
                exact_rule (trim (toLowerCase s)) t \<longrightarrow>
                first_related s ts = Some \<lparr>source = s, target = name t, confidence = 1\<rparr>)"
  using assms by (simp add: ruleBasedMatching_map_filter first_related_def grade_def)

theorem rule_pass_first_related_target_wins_witness:
  "list_all plain_target titled \<and>
   ruleBasedMatching [js ''title'', js ''Name '', js ''zzz'', [51060, 47492]] titled =
     Inr [\<lparr>source = js ''title'', target = js ''position'', confidence = 9 / 10\<rparr>,
          \<lparr>source = js ''Name '', target = js ''name'', confidence = 1\<rparr>,
          \<lparr>source = [51060, 47492], target = js ''name'', confidence = 9 / 10\<rparr>] \<and>
   find (related (trim (toLowerCase (js ''Name '')))) titled = Some (field (js ''name'') TString True) \<and>
   exact_rule (trim (toLowerCase (js ''Name ''))) (field (js ''name'') TString True) \<and>
   first_related (js ''Name '') titled =
     Some \<lparr>source = js ''Name '', target = name (field (js ''name'') TString True), confidence = 1\<rparr>"
proof -
  have p: "list_all plain_target titled"
    by (simp add: titled_def field_def plain_target_def inherited_def toLowerCase_def
        lower_unit_def)
  have f: "find (related (trim (toLowerCase (js ''Name '')))) titled =
      Some (field (js ''name'') TString True)"
    by (simp add: titled_def field_def related_def exact_rule_def synonym_rule_def
        substring_rule_def synonyms_def toLowerCase_def lower_unit_def trim_def is_space_def)
  have e: "exact_rule (trim (toLowerCase (js ''Name ''))) (field (js ''name'') TString True)"
    by (simp add: field_def exact_rule_def toLowerCase_def lower_unit_def trim_def is_space_def)
  have m: "List.map_filter (\<lambda>s. first_related s titled)
        [js ''title'', js ''Name '', js ''zzz'', [51060, 47492]] =
     [\<lparr>source = js ''title'', target = js ''position'', confidence = 9 / 10\<rparr>,
      \<lparr>source = js ''Name '', target = js ''name'', confidence = 1\<rparr>,
      \<lparr>source = [51060, 47492], target = js ''name'', confidence = 9 / 10\<rparr>]"
    by (simp add: List.map_filter_simps titled_def field_def first_related_def related_def
        grade_def exact_rule_def synonym_rule_def substring_rule_def synonyms_def
        toLowerCase_def lower_unit_def trim_def is_space_def)
  from rule_pass_first_related_target_wins
    [OF p, of "[js ''title'', js ''Name '', js ''zzz'', [51060, 47492]]"]
  have "ruleBasedMatching [js ''title'', js ''Name '', js ''zzz'', [51060, 47492]] titled =
      Inr (List.map_filter (\<lambda>s. first_related s titled)
        [js ''title'', js ''Name '', js ''zzz'', [51060, 47492]])"
    and "first_related (js ''Name '') titled =
      Some \<lparr>source = js ''Name '', target = name (field (js ''name'') TString True), confidence = 1\<rparr>"
    using f e by blast+
  with p f e m show ?thesis by simp
qed

section \<open>matchColumns\<close>

text \<open>
  Claim C7 says in passing that labels equal to target names are all matched at confidence
  1.0. With the targets \<open>username\<close> and \<open>name\<close> the label \<open>name\<close> equals a target
  name and the Oracle is not called, but the match is the one to \<open>username\<close> at 0.8.
\<close>

theorem matchColumns_exact_label_counterexample:
  "js ''name'' \<in> name ` set (columns (draft (js ''people'') named)) \<and>
   list_all plain_target (columns (draft (js ''people'') named)) \<and>
   matchColumns silent [js ''name''] (draft (js ''people'') named) =
     (Inr [\<lparr>source = js ''name'', target = js ''username'', confidence = 8 / 10\<rparr>], [])"
  by (simp add: matchColumns_def named_def field_def draft_def plain_target_def inherited_def
      toLowerCase_def lower_unit_def trim_def is_space_def synonyms_of_def synonyms_def Let_def)

text \<open>
  Claim C7, amended. For every input to \<open>matchColumns\<close> whose target fields each have a
  label and a name that, in lower case, is not the name of a member of \<open>Object.prototype\<close>,
  the rule pass returns, and: if every source label obtains a rule-pass match, the Oracle
  is not invoked at all and exactly the rule matches are returned; otherwise the Oracle is
  invoked once, with exactly the source labels the rule pass left unmatched, and what it
  returns is appended to the rule matches. The rule matches are those of the labels that
  have a related target, so no matched label is passed on. In particular, when every
  source label equals a target field name, every label is rule-matched and the Oracle is
  not invoked; the confidences are all 1.0 when, for each label, the first target related
  to it is one it equals exactly.
\<close>

theorem matchColumns_asks_oracle_for_unmatched_only:
  assumes "list_all plain_target (columns sc)"
  shows "\<exists>rb. ruleBasedMatching srcs (columns sc) = Inr rb \<and>
     matchColumns ai srcs sc =
       (if list_all (rule_matched (columns sc)) srcs
        then (Inr rb, [])
        else (Inr (rb @
                   oracle_matches
                     (ai (filter (\<lambda>s. \<not> rule_matched (columns sc) s) srcs)
                        (map (\<lambda>c. (name c, label c)) (columns sc)))),
              [filter (\<lambda>s. \<not> rule_matched (columns sc) s) srcs])) \<and>
     map source rb = filter (rule_matched (columns sc)) srcs \<and>
     (set srcs \<subseteq> name ` set (columns sc) \<longrightarrow> list_all (rule_matched (columns sc)) srcs) \<and>
     (list_all (\<lambda>s. case find (related (trim (toLowerCase s))) (columns sc) of
                        None \<Rightarrow> False | Some t \<Rightarrow> exact_rule (trim (toLowerCase s)) t) srcs \<longrightarrow>
      map confidence rb = map (\<lambda>s. 1) srcs)"
proof -
  let ?rb = "List.map_filter (\<lambda>s. first_related s (columns sc)) srcs"
  have 1: "ruleBasedMatching srcs (columns sc) = Inr ?rb"
    by (rule ruleBasedMatching_map_filter [OF assms])
  have 2: "matchColumns ai srcs sc =
       (if list_all (rule_matched (columns sc)) srcs
        then (Inr ?rb, [])
        else (Inr (?rb @
                   oracle_matches
                     (ai (filter (\<lambda>s. \<not> rule_matched (columns sc) s) srcs)
                        (map (\<lambda>c. (name c, label c)) (columns sc)))),
              [filter (\<lambda>s. \<not> rule_matched (columns sc) s) srcs]))"
    by (rule matchColumns_cases [OF assms])
  have 3: "map source ?rb = filter (rule_matched (columns sc)) srcs"
    by (rule first_related_sources)
  have 4: "set srcs \<subseteq> name ` set (columns sc) \<longrightarrow> list_all (rule_matched (columns sc)) srcs"
    using named_label_rule_matched [of _ "columns sc"] by (auto simp: list_all_iff)
  have 5: "list_all (\<lambda>s. case find (related (trim (toLowerCase s))) (columns sc) of
                        None \<Rightarrow> False | Some t \<Rightarrow> exact_rule (trim (toLowerCase s)) t) srcs \<longrightarrow>
      map confidence ?rb = map (\<lambda>s. 1) srcs"
    using exact_confidence [of "columns sc" srcs] by blast
  from 1 2 3 4 5 show ?thesis by blast
qed

theorem matchColumns_asks_oracle_for_unmatched_only_witness:
  "list_all plain_target (columns (draft (js ''staff'') titled)) \<and>
   matchColumns advising [js ''title'', js ''zzz'', js ''Name ''] (draft (js ''staff'') titled) =
     (Inr [\<lparr>source = js ''title'', target = js ''position'', confidence = 9 / 10\<rparr>,
           \<lparr>source = js ''Name '', target = js ''name'', confidence = 1\<rparr>,
           \<lparr>source = js ''zzz'', target = js ''name'', confidence = 3 / 4\<rparr>],
      [[js ''zzz'']]) \<and>
   matchColumns advising [js ''title'', js ''name'']
       (draft (js ''staff'') [field (js ''title'') TString True, field (js ''name'') TString True]) =
     (Inr [\<lparr>source = js ''title'', target = js ''title'', confidence = 1\<rparr>,
           \<lparr>source = js ''name'', target = js ''name'', confidence = 1\<rparr>], [])"
proof -
  let ?sc = "draft (js ''staff'') titled"
  let ?srcs = "[js ''title'', js ''zzz'', js ''Name '']"
  let ?sc2 = "draft (js ''staff'') [field (js ''title'') TString True, field (js ''name'') TString True]"
  let ?srcs2 = "[js ''title'', js ''name'']"
  have p: "list_all plain_target (columns ?sc)"
    by (simp add: draft_def titled_def field_def plain_target_def inherited_def toLowerCase_def
        lower_unit_def)
  have a: "\<not> list_all (rule_matched (columns ?sc)) ?srcs"
    by (simp add: draft_def titled_def field_def related_def exact_rule_def synonym_rule_def
        substring_rule_def rule_matched_def synonyms_def toLowerCase_def lower_unit_def
        trim_def is_space_def)
  have u: "filter (\<lambda>s. \<not> rule_matched (columns ?sc) s) ?srcs = [js ''zzz'']"
    by (simp add: draft_def titled_def field_def related_def exact_rule_def synonym_rule_def
        substring_rule_def rule_matched_def synonyms_def toLowerCase_def lower_unit_def
        trim_def is_space_def)
  have r: "ruleBasedMatching ?srcs (columns ?sc) =
     Inr [\<lparr>source = js ''title'', target = js ''position'', confidence = 9 / 10\<rparr>,
          \<lparr>source = js ''Name '', target = js ''name'', confidence = 1\<rparr>]"
    by (simp add: draft_def titled_def field_def inherited_def toLowerCase_def lower_unit_def
        trim_def is_space_def synonyms_of_def synonyms_def Let_def)
  have o: "oracle_matches (advising [js ''zzz''] (map (\<lambda>c. (name c, label c)) (columns ?sc))) =
      [\<lparr>source = js ''zzz'', target = js ''name'', confidence = 3 / 4\<rparr>]"
    by (simp add: oracle_matches_def advising_def)
  from matchColumns_asks_oracle_for_unmatched_only [OF p, where srcs = ?srcs and ai = advising]
  obtain rb where rb: "ruleBasedMatching ?srcs (columns ?sc) = Inr rb"
    and mc: "matchColumns advising ?srcs ?sc =
       (if list_all (rule_matched (columns ?sc)) ?srcs
        then (Inr rb, [])
        else (Inr (rb @
                   oracle_matches
                     (advising (filter (\<lambda>s. \<not> rule_matched (columns ?sc) s) ?srcs)
                        (map (\<lambda>c. (name c, label c)) (columns ?sc)))),
              [filter (\<lambda>s. \<not> rule_matched (columns ?sc) s) ?srcs]))"
    by blast
  from rb r have rbv: "rb =
     [\<lparr>source = js ''title'', target = js ''position'', confidence = 9 / 10\<rparr>,
      \<lparr>source = js ''Name '', target = js ''name'', confidence = 1\<rparr>]"
    by simp
  have first: "matchColumns advising ?srcs ?sc =
     (Inr [\<lparr>source = js ''title'', target = js ''position'', confidence = 9 / 10\<rparr>,
           \<lparr>source = js ''Name '', target = js ''name'', confidence = 1\<rparr>,
           \<lparr>source = js ''zzz'', target = js ''name'', confidence = 3 / 4\<rparr>],
      [[js ''zzz'']])"
    using mc a unfolding rbv by (simp only: u o if_False append.simps)
  have p2: "list_all plain_target (columns ?sc2)"
    by (simp add: draft_def field_def plain_target_def inherited_def toLowerCase_def
        lower_unit_def)
  have s: "set ?srcs2 \<subseteq> name ` set (columns ?sc2)"
    by (simp add: draft_def field_def)
  have r2: "ruleBasedMatching ?srcs2 (columns ?sc2) =
     Inr [\<lparr>source = js ''title'', target = js ''title'', confidence = 1\<rparr>,
          \<lparr>source = js ''name'', target = js ''name'', confidence = 1\<rparr>]"
    by (simp add: draft_def field_def inherited_def toLowerCase_def lower_unit_def
        trim_def is_space_def synonyms_of_def synonyms_def Let_def)
  from matchColumns_asks_oracle_for_unmatched_only [OF p2, where srcs = ?srcs2 and ai = advising] s
  obtain rb2 where rb2: "ruleBasedMatching ?srcs2 (columns ?sc2) = Inr rb2"
    and mc2: "matchColumns advising ?srcs2 ?sc2 = (Inr rb2, [])"
    by auto
  from rb2 r2 have "rb2 =
     [\<lparr>source = js ''title'', target = js ''title'', confidence = 1\<rparr>,
      \<lparr>source = js ''name'', target = js ''name'', confidence = 1\<rparr>]"
    by simp
  with mc2 have second: "matchColumns advising ?srcs2 ?sc2 =
     (Inr [\<lparr>source = js ''title'', target = js ''title'', confidence = 1\<rparr>,
           \<lparr>source = js ''name'', target = js ''name'', confidence = 1\<rparr>], [])"
    by simp
  from p first second show ?thesis by simp
qed

text \<open>
  Claim C8. For every input to \<open>matchColumns\<close> on which the rule pass has returned its
  matches, if the call to the AI Oracle then throws, \<open>matchColumns\<close> returns exactly the
  rule-pass matches: the failure is not propagated to the caller.
\<close>

theorem matchColumns_absorbs_oracle_failure:
  "ruleBasedMatching srcs (columns sc) = Inr rb \<Longrightarrow>
   ai (filter (\<lambda>c. c \<notin> set (map source rb)) srcs)
     (map (\<lambda>c. (name c, label c)) (columns sc)) = Throws \<Longrightarrow>
   fst (matchColumns ai srcs sc) = Inr rb \<and>
   fst (matchColumns ai srcs sc) = ruleBasedMatching srcs (columns sc)"
  by (simp add: matchColumns_def Let_def)

theorem matchColumns_absorbs_oracle_failure_witness:
  "ruleBasedMatching [js ''zzz'', js ''name''] (columns (draft (js ''people'') named)) =
     Inr [\<lparr>source = js ''name'', target = js ''username'', confidence = 8 / 10\<rparr>] \<and>
   silent (filter (\<lambda>c. c \<notin> set (map source
                [\<lparr>source = js ''name'', target = js ''username'', confidence = 8 / 10\<rparr>]))
             [js ''zzz'', js ''name''])
     (map (\<lambda>c. (name c, label c)) (columns (draft (js ''people'') named))) = Throws \<and>
   snd (matchColumns silent [js ''zzz'', js ''name''] (draft (js ''people'') named)) = [[js ''zzz'']] \<and>
   fst (matchColumns silent [js ''zzz'', js ''name''] (draft (js ''people'') named)) =
     Inr [\<lparr>source = js ''name'', target = js ''username'', confidence = 8 / 10\<rparr>]"
proof -
  let ?sc = "draft (js ''people'') named"
  let ?srcs = "[js ''zzz'', js ''name'']"
  let ?rb = "[\<lparr>source = js ''name'', target = js ''username'', confidence = 8 / 10\<rparr>]"
  have r: "ruleBasedMatching ?srcs (columns ?sc) = Inr ?rb"
    by (simp add: draft_def named_def field_def inherited_def toLowerCase_def lower_unit_def
        trim_def is_space_def synonyms_of_def synonyms_def Let_def)
  have t: "silent (filter (\<lambda>c. c \<notin> set (map source ?rb)) ?srcs)
     (map (\<lambda>c. (name c, label c)) (columns ?sc)) = Throws"
    by (simp only: silent_def)
  have c: "snd (matchColumns silent ?srcs ?sc) = [[js ''zzz'']]"
    by (simp add: matchColumns_def silent_def draft_def named_def field_def inherited_def
        toLowerCase_def lower_unit_def trim_def is_space_def synonyms_of_def synonyms_def Let_def)
  from matchColumns_absorbs_oracle_failure [of ?srcs ?sc ?rb silent, OF r t]
  have "fst (matchColumns silent ?srcs ?sc) = Inr ?rb"
    by blast
  with r t c show ?thesis by blast
qed

text \<open>
  A defect that the theorems on the reconciler leave out. For a target field named
  \<open>constructor\<close>, or by any other name that is, in lower case, the name of a member of
  \<open>Object.prototype\<close>, the dictionary read yields that member and the call of \<open>some\<close> on
  it throws a \<open>TypeError\<close> as soon as a label reaches the synonym test of that target; a
  target without a label throws in \<open>target.label.toLowerCase()\<close>. The rule pass runs
  before the \<open>try\<close> block of \<open>matchColumns\<close>, so the exception reaches the caller and the
  Oracle is not asked.
\<close>

lemma rule_pass_throws_on_member_name:
  "ruleBasedMatching [js ''city''] [field (js ''constructor'') TString True] = Inl TypeError \<and>
   ruleBasedMatching [js ''city''] [(field (js ''town'') TString True)\<lparr>label := None\<rparr>] =
     Inl TypeError \<and>
   matchColumns advising [js ''city'']
       (draft (js ''places'') [field (js ''constructor'') TString True]) =
     (Inl TypeError, [])"
  by (simp add: matchColumns_def draft_def field_def inherited_def toLowerCase_def
      lower_unit_def trim_def is_space_def synonyms_of_def synonyms_def)

section \<open>Menu ids\<close>

lemma undecimal_decimal: "undecimal (decimal n) = n"
proof (induction n rule: decimal.induct)
  case (1 n)
  show ?case
  proof (cases "n < 10")
    case True
    then have "decimal n = [48 + n]" by (subst decimal.simps) simp
    then show ?thesis by (simp add: undecimal_def)
  next
    case False
    with 1 have "undecimal (decimal (n div 10)) = n div 10" by simp
    then have "undecimal (decimal (n div 10) @ [48 + n mod 10]) = 10 * (n div 10) + n mod 10"
      by (simp add: undecimal_def)
    moreover have "decimal n = decimal (n div 10) @ [48 + n mod 10]"
      using False by (subst decimal.simps) simp
    ultimately show ?thesis by simp
  qed
qed

lemma decimal_inj: "decimal m = decimal n \<Longrightarrow> m = n"
  by (metis undecimal_decimal)

lemma suffix_loop_free:
  assumes "suffix_loop has slug mid counter = Some r"
  shows "\<not> has r"
proof (rule suffix_loop.raw_induct [where P = "\<lambda>h s m c y. \<not> h y", OF _ assms], goal_cases)
  case (1 f h s m c y)
  show ?case
  proof (cases "h m")
    case True
    with 1(2) have "f h s (s @ [95] @ decimal c) (c + 1) = Some y" by simp
    then show ?thesis by (rule 1(1))
  next
    case False
    with 1(2) show ?thesis by simp
  qed
qed

lemma suffix_loop_shape:
  assumes "suffix_loop has slug mid counter = Some r"
  shows "r = mid \<or> (\<exists>k\<ge>counter. r = slug @ [95] @ decimal k)"
proof (rule suffix_loop.raw_induct
    [where P = "\<lambda>h s m c y. y = m \<or> (\<exists>k\<ge>c. y = s @ [95] @ decimal k)", OF _ assms],
    goal_cases)
  case (1 f h s m c y)
  show ?case
  proof (cases "h m")
    case True
    with 1(2) have "f h s (s @ [95] @ decimal c) (c + 1) = Some y" by simp
    then have "y = s @ [95] @ decimal c \<or> (\<exists>k\<ge>c + 1. y = s @ [95] @ decimal k)"
      by (rule 1(1))
    then show ?thesis
    proof
      assume "y = s @ [95] @ decimal c"
      then have "c \<le> c \<and> y = s @ [95] @ decimal c" by simp
      then show ?thesis by blast
    next
      assume "\<exists>k\<ge>c + 1. y = s @ [95] @ decimal k"
      then obtain k where "c + 1 \<le> k" and "y = s @ [95] @ decimal k" by blast
      then have "c \<le> k \<and> y = s @ [95] @ decimal k" by simp
      then show ?thesis by blast
    qed
  next
    case False
    with 1(2) show ?thesis by simp
  qed
qed

lemma suffix_loop_terminates_aux:
  assumes fin: "finite {k. has k}"
  shows "card {k. c \<le> k \<and> has (slug @ [95] @ decimal k)} = n \<Longrightarrow>
         \<exists>r. suffix_loop has slug (slug @ [95] @ decimal c) (c + 1) = Some r"
proof (induction n arbitrary: c rule: less_induct)
  case (less n)
  let ?A = "\<lambda>c. {k. c \<le> k \<and> has (slug @ [95] @ decimal k)}"
  have inj: "inj (\<lambda>k. slug @ [95] @ decimal k)"
    by (auto simp: inj_def dest: decimal_inj)
  have "finite ((\<lambda>k. slug @ [95] @ decimal k) -` {k. has k})"
    using fin inj by (rule finite_vimageI)
  moreover have "?A c \<subseteq> (\<lambda>k. slug @ [95] @ decimal k) -` {k. has k}" by auto
  ultimately have finA: "finite (?A c)" by (rule rev_finite_subset)
  show ?case
  proof (cases "has (slug @ [95] @ decimal c)")
    case False
    then show ?thesis by (subst suffix_loop.simps) simp
  next
    case True
    then have "c \<in> ?A c" by simp
    moreover have "?A (c + 1) = ?A c - {c}" by auto
    ultimately have "card (?A (c + 1)) < card (?A c)"
      using finA card_Diff1_less [of "?A c" c] by simp
    with less have "\<exists>r. suffix_loop has slug (slug @ [95] @ decimal (c + 1)) (c + 1 + 1) = Some r"
      by blast
    with True show ?thesis by (subst suffix_loop.simps) simp
  qed
qed

lemma suffix_loop_terminates:
  assumes "finite {k. has k}"
  shows "\<exists>r. suffix_loop has slug slug 1 = Some r"
proof (cases "has slug")
  case False
  then show ?thesis by (subst suffix_loop.simps) simp
next
  case True
  from suffix_loop_terminates_aux [OF assms refl, of slug 1]
  obtain r where "suffix_loop has slug (slug @ [95] @ decimal 1) (1 + 1) = Some r" by blast
  with True show ?thesis by (subst suffix_loop.simps) simp
qed

lemma generateMenuId_fresh: "generateMenuId ms nm = Some mid \<Longrightarrow> ms mid = None"
  using suffix_loop_free [of "\<lambda>k. ms k \<noteq> None"] by (auto simp: generateMenuId_def)

lemma generateMenuId_terminates: "finite (dom ms) \<Longrightarrow> \<exists>mid. generateMenuId ms nm = Some mid"
  using suffix_loop_terminates [of "\<lambda>k. ms k \<noteq> None"] by (simp add: generateMenuId_def dom_def)

lemma generateMenuId_shape:
  "generateMenuId ms nm = Some mid \<Longrightarrow>
   mid = slugify nm \<or> (\<exists>k\<ge>1. mid = slugify nm @ [95] @ decimal k)"
  using suffix_loop_shape [of "\<lambda>k. ms k \<noteq> None" "slugify nm" "slugify nm" 1 mid]
  by (simp add: generateMenuId_def)

lemma decimal_small: "n < 10 \<Longrightarrow> decimal n = [48 + n]"
  by (subst decimal.simps) simp

lemma generateMenuId_Customers:
  "generateMenuId Map.empty (js ''Customers'') = Some (js ''customers'')"
  unfolding generateMenuId_def
  by (subst suffix_loop.simps)
     (simp add: slugify_def toLowerCase_def lower_unit_def slug_unit_def is_space_def)

section \<open>Generated fields of a schema\<close>

lemma find_has_field: "(find (\<lambda>col. name col = n) cs = None) \<longleftrightarrow> \<not> has_field cs n"
  by (auto simp: has_field_def find_None_iff list_ex_iff)

lemma has_field_append: "has_field (xs @ ys) n \<longleftrightarrow> has_field xs n \<or> has_field ys n"
  by (auto simp: has_field_def list_ex_iff)

lemma has_field_Cons: "has_field (c # cs) n \<longleftrightarrow> name c = n \<or> has_field cs n"
  by (auto simp: has_field_def)

lemma has_field_Nil: "\<not> has_field [] n"
  by (simp add: has_field_def)

lemma generateSchema_columns:
  "generateSchema (Returns d) =
     Inr (d\<lparr>columns :=
            (if has_field (columns d) (js ''id'') then [] else [id_column]) @ columns d @
            (if has_field (columns d) (js ''createdAt'') then [] else [createdAt_column]) @
            (if has_field (columns d) (js ''updatedAt'') then [] else [updatedAt_column])\<rparr>)"
  by (simp add: generateSchema_def Let_def find_has_field has_field_append has_field_Cons
      has_field_Nil id_column_def createdAt_column_def updatedAt_column_def)

lemma createMenu_stores_draft:
  "createMenu w st d = Some (m, st') \<Longrightarrow> schemas st' (m_id m) = Some d"
  by (auto simp: createMenu_def Let_def split: option.splits if_splits)

text \<open>
  Claim C2 says that \<open>createMenu\<close> too leaves the three generated fields in the schema.
  \<open>createMenu\<close> stores the draft as it is: a draft with the single column \<open>name\<close> is
  stored with that single column.
\<close>

theorem createMenu_keeps_draft_counterexample:
  "map_option (\<lambda>(m, st'). (m_id m, map_option (map name \<circ> columns) (schemas st' (js ''customers''))))
     (createMenu w0 empty_store (draft (js ''Customers'') [field (js ''name'') TString True])) =
   Some (js ''customers'', Some [js ''name''])"
proof -
  have "generateMenuId Map.empty (js ''Customers'') = Some (js ''customers'')"
    unfolding generateMenuId_def
    by (subst suffix_loop.simps)
       (simp add: slugify_def toLowerCase_def lower_unit_def slug_unit_def is_space_def)
  then show ?thesis
    by (simp add: createMenu_def draft_def empty_store_def field_def Let_def)
qed

text \<open>
  Claim C2, amended. Whenever a schema is accepted from the AI Oracle (\<open>generateSchema\<close>),
  the resulting column list has a column named \<open>id\<close>, one named \<open>createdAt\<close> and one named
  \<open>updatedAt\<close>: each of the three that the draft lacks is injected, \<open>id\<close> (type string,
  read-only, generated) in front, \<open>createdAt\<close> and \<open>updatedAt\<close> (type date, read-only,
  generated) at the end, and a column of the draft that already bears one of the names is
  kept as it is. \<open>createMenu\<close> injects nothing: it stores the draft it is given.
\<close>

theorem generateSchema_injects_generated_fields:
  "(\<exists>sc. generateSchema (Returns d) = Inr sc \<and>
      columns sc =
        (if has_field (columns d) (js ''id'') then [] else [id_column]) @ columns d @
        (if has_field (columns d) (js ''createdAt'') then [] else [createdAt_column]) @
        (if has_field (columns d) (js ''updatedAt'') then [] else [updatedAt_column]) \<and>
      has_field (columns sc) (js ''id'') \<and> has_field (columns sc) (js ''createdAt'') \<and>
      has_field (columns sc) (js ''updatedAt'')) \<and>
   name id_column = js ''id'' \<and> ftype id_column = TString \<and> readOnly id_column \<and>
   generated id_column \<and>
   name createdAt_column = js ''createdAt'' \<and> ftype createdAt_column = TDate \<and>
   readOnly createdAt_column \<and> generated createdAt_column \<and>
   name updatedAt_column = js ''updatedAt'' \<and> ftype updatedAt_column = TDate \<and>
   readOnly updatedAt_column \<and> generated updatedAt_column \<and>
   (\<forall>w st m st'. createMenu w st d = Some (m, st') \<longrightarrow> schemas st' (m_id m) = Some d)"
proof -
  have "has_field [id_column] (js ''id'')" "has_field [createdAt_column] (js ''createdAt'')"
    "has_field [updatedAt_column] (js ''updatedAt'')"
    by (simp_all add: has_field_def id_column_def createdAt_column_def updatedAt_column_def)
  then have "\<exists>sc. generateSchema (Returns d) = Inr sc \<and>
      columns sc =
        (if has_field (columns d) (js ''id'') then [] else [id_column]) @ columns d @
        (if has_field (columns d) (js ''createdAt'') then [] else [createdAt_column]) @
        (if has_field (columns d) (js ''updatedAt'') then [] else [updatedAt_column]) \<and>
      has_field (columns sc) (js ''id'') \<and> has_field (columns sc) (js ''createdAt'') \<and>
      has_field (columns sc) (js ''updatedAt'')"
    by (simp add: generateSchema_columns has_field_append)
  moreover have "\<forall>w st m st'. createMenu w st d = Some (m, st') \<longrightarrow> schemas st' (m_id m) = Some d"
    using createMenu_stores_draft by blast
  ultimately show ?thesis
    by (simp add: id_column_def createdAt_column_def updatedAt_column_def)
qed

theorem generateSchema_injects_generated_fields_witness:
  "(\<exists>sc. generateSchema (Returns (draft (js ''Customers'') [field (js ''name'') TString True])) =
        Inr sc \<and>
      columns sc =
        [id_column, field (js ''name'') TString True, createdAt_column, updatedAt_column]) \<and>
   (\<exists>m st'. createMenu w0 empty_store (draft (js ''Customers'') [field (js ''name'') TString True]) =
        Some (m, st') \<and>
      schemas st' (m_id m) = Some (draft (js ''Customers'') [field (js ''name'') TString True]))"
proof -
  let ?d = "draft (js ''Customers'') [field (js ''name'') TString True]"
  have h: "\<not> has_field (columns ?d) (js ''id'')" "\<not> has_field (columns ?d) (js ''createdAt'')"
    "\<not> has_field (columns ?d) (js ''updatedAt'')"
    by (simp_all add: has_field_def draft_def field_def)
  have c: "columns ?d = [field (js ''name'') TString True]"
    by (simp add: draft_def)
  obtain m st' where cm: "createMenu w0 empty_store ?d = Some (m, st')"
    using generateMenuId_Customers
    by (simp add: createMenu_def draft_def empty_store_def Let_def)
  from generateSchema_injects_generated_fields [of ?d]
  have "\<exists>sc. generateSchema (Returns ?d) = Inr sc \<and>
      columns sc = [id_column, field (js ''name'') TString True, createdAt_column, updatedAt_column]"
    and "schemas st' (m_id m) = Some ?d"
    using h c cm by auto
  with cm show ?thesis by blast
qed

section \<open>createMenu\<close>

text \<open>
  Claim C10. When the draft passed to \<open>createMenu\<close> carries an explicit \<open>menuId\<close> (a
  non-empty string: the empty one is falsy and counts as none), that id is used verbatim,
  with no uniqueness check and no derivation: the schema stored under it becomes the draft
  and its row list becomes empty, whatever was stored there before. The derivation runs
  only when the draft supplies no \<open>menuId\<close>; it then returns (the menus being finitely
  many) the slug of the menu name or the slug with a suffix \<open>_k\<close>, an id no menu has yet.
\<close>

theorem createMenu_explicit_menuId_verbatim:
  "(menuId d = Some mid \<and> mid \<noteq> [] \<longrightarrow>
      (\<exists>m st'. createMenu w st d = Some (m, st') \<and> m_id m = mid \<and>
         menus st' = (menus st)(mid \<mapsto> m) \<and> schemas st' = (schemas st)(mid \<mapsto> d) \<and>
         data st' = (data st)(mid \<mapsto> []) \<and> dirty st' = insert mid (dirty st))) \<and>
   ((menuId d = None \<or> menuId d = Some []) \<and> finite (dom (menus st)) \<longrightarrow>
      (\<exists>m st'. createMenu w st d = Some (m, st') \<and>
         generateMenuId (menus st) (menuName d) = Some (m_id m) \<and>
         menus st (m_id m) = None \<and>
         (m_id m = slugify (menuName d) \<or>
          (\<exists>k\<ge>1. m_id m = slugify (menuName d) @ [95] @ decimal k)) \<and>
         menus st' = (menus st)(m_id m \<mapsto> m) \<and> schemas st' = (schemas st)(m_id m \<mapsto> d) \<and>
         data st' = (data st)(m_id m \<mapsto> []) \<and> dirty st' = insert (m_id m) (dirty st)))"
proof (intro conjI impI)
  assume "menuId d = Some mid \<and> mid \<noteq> []"
  then show "\<exists>m st'. createMenu w st d = Some (m, st') \<and> m_id m = mid \<and>
         menus st' = (menus st)(mid \<mapsto> m) \<and> schemas st' = (schemas st)(mid \<mapsto> d) \<and>
         data st' = (data st)(mid \<mapsto> []) \<and> dirty st' = insert mid (dirty st)"
    by (simp add: createMenu_def Let_def)
next
  assume a: "(menuId d = None \<or> menuId d = Some []) \<and> finite (dom (menus st))"
  then obtain mid where g: "generateMenuId (menus st) (menuName d) = Some mid"
    using generateMenuId_terminates by blast
  from a have f: "\<not> truthy (map_option JStr (menuId d))" by auto
  from g have "menus st mid = None" by (rule generateMenuId_fresh)
  moreover from g have "mid = slugify (menuName d) \<or>
      (\<exists>k\<ge>1. mid = slugify (menuName d) @ [95] @ decimal k)"
    by (rule generateMenuId_shape)
  ultimately show "\<exists>m st'. createMenu w st d = Some (m, st') \<and>
         generateMenuId (menus st) (menuName d) = Some (m_id m) \<and>
         menus st (m_id m) = None \<and>
         (m_id m = slugify (menuName d) \<or>
          (\<exists>k\<ge>1. m_id m = slugify (menuName d) @ [95] @ decimal k)) \<and>
         menus st' = (menus st)(m_id m \<mapsto> m) \<and> schemas st' = (schemas st)(m_id m \<mapsto> d) \<and>
         data st' = (data st)(m_id m \<mapsto> []) \<and> dirty st' = insert (m_id m) (dirty st)"
    using f g by (simp add: createMenu_def Let_def)
qed

theorem createMenu_explicit_menuId_verbatim_witness:
  "(\<exists>m st'. createMenu w0 customers
        ((draft (js ''Customers'') [field (js ''email'') TEmail True])\<lparr>menuId := Some (js ''customers'')\<rparr>) =
        Some (m, st') \<and>
      m_id m = js ''customers'' \<and> data customers (js ''customers'') \<noteq> Some [] \<and>
      data st' (js ''customers'') = Some [] \<and>
      schemas st' (js ''customers'') =
        Some ((draft (js ''Customers'') [field (js ''email'') TEmail True])\<lparr>menuId := Some (js ''customers'')\<rparr>)) \<and>
   (\<exists>m st'. createMenu w0 customers (draft (js ''Customers'') [field (js ''email'') TEmail True]) =
        Some (m, st') \<and>
      m_id m = js ''customers_1'' \<and> data st' (js ''customers'') = data customers (js ''customers''))"
proof -
  let ?e = "(draft (js ''Customers'') [field (js ''email'') TEmail True])\<lparr>menuId := Some (js ''customers'')\<rparr>"
  let ?d = "draft (js ''Customers'') [field (js ''email'') TEmail True]"
  have e: "menuId ?e = Some (js ''customers'') \<and> js ''customers'' \<noteq> []"
    by (simp add: draft_def)
  have old: "data customers (js ''customers'') \<noteq> Some []"
    by (simp add: customers_def)
  from createMenu_explicit_menuId_verbatim [of ?e "js ''customers''" w0 customers] e
  obtain m st' where 1: "createMenu w0 customers ?e = Some (m, st')" "m_id m = js ''customers''"
    "schemas st' = (schemas customers)(js ''customers'' \<mapsto> ?e)"
    "data st' = (data customers)(js ''customers'' \<mapsto> [])"
    by blast
  have d: "(menuId ?d = None \<or> menuId ?d = Some []) \<and> finite (dom (menus customers))"
    by (simp add: draft_def customers_def)
  from createMenu_explicit_menuId_verbatim [of ?d "js ''customers''" w0 customers] d
  obtain m2 st2 where 2: "createMenu w0 customers ?d = Some (m2, st2)"
    "generateMenuId (menus customers) (menuName ?d) = Some (m_id m2)"
    "data st2 = (data customers)(m_id m2 \<mapsto> [])"
    by blast
  have "generateMenuId (menus customers) (menuName ?d) = Some (js ''customers_1'')"
    unfolding generateMenuId_def
    apply (subst suffix_loop.simps)
    apply (subst suffix_loop.simps)
    apply (simp add: slugify_def toLowerCase_def lower_unit_def slug_unit_def is_space_def
        customers_def draft_def decimal_small)
    done
  with 2 have 3: "m_id m2 = js ''customers_1''" by simp
  with 2 have "data st2 (js ''customers'') = data customers (js ''customers'')" by simp
  with 1 2 3 old show ?thesis by auto
qed

section \<open>The row validator, field by field\<close>

lemma inherited_proto: "inherited (js ''__proto__'')"
  by (simp add: inherited_def)

lemma plain_id: "\<not> inherited (js ''id'')"
  by (simp add: inherited_def)

lemma plain_createdAt: "\<not> inherited (js ''createdAt'')"
  by (simp add: inherited_def)

lemma plain_updatedAt: "\<not> inherited (js ''updatedAt'')"
  by (simp add: inherited_def)

lemma get_key_own: "\<not> inherited k \<or> fst ob k \<noteq> None \<Longrightarrow> get_key ob k = fst ob k"
  by (auto simp: get_key_def split: option.splits)

lemma set_null_other: "k' \<noteq> k \<Longrightarrow> fst (set_null ob k) k' = fst ob k'"
  by (simp add: set_null_def)

lemma set_null_own: "\<not> inherited k \<or> fst ob k \<noteq> None \<Longrightarrow> fst (set_null ob k) k = Some JNull"
  using inherited_proto by (auto simp: set_null_def)

lemma get_key_set_null:
  "get_key ob k = None \<or> get_key ob k = Some (JStr s) \<Longrightarrow> get_key (set_null ob k) k = Some JNull"
  using inherited_proto by (auto simp: get_key_def set_null_def split: option.splits if_splits)

lemma validateColumn_eq:
  "validateColumn w c ob =
     (if checked (get_key ob (name c)) then pattern_error w c else None,
      settle c ob,
      learn c (get_key ob (name c)))"
proof (cases "get_key ob (name c)")
  case None
  with get_key_set_null [of ob "name c"] show ?thesis
    by (auto simp: validateColumn_def settle_def coerce_def checked_def learn_def Let_def)
next
  case (Some a)
  show ?thesis
  proof (cases "a = JNull \<or> a = JStr []")
    case True
    with Some get_key_set_null [of ob "name c" "[]"] show ?thesis
      by (auto simp: validateColumn_def settle_def coerce_def checked_def learn_def Let_def)
  next
    case False
    with Some show ?thesis
      by (auto simp: validateColumn_def settle_def coerce_def checked_def learn_def
          pattern_error_def Let_def split: option.splits)
  qed
qed


lemma coerce_cases: "coerce c v = v \<or> coerce c v = Some JNull"
  by (auto simp: coerce_def split: option.splits)

lemma settle_other: "name c \<noteq> k \<Longrightarrow> fst (settle c ob) k = fst ob k"
  by (simp add: settle_def set_null_other)

lemma settle_own:
  assumes "\<not> inherited (name c) \<or> fst ob (name c) \<noteq> None"
  shows "fst (settle c ob) (name c) = coerce c (fst ob (name c))"
proof -
  from assms have g: "get_key ob (name c) = fst ob (name c)" by (rule get_key_own)
  show ?thesis
  proof (cases "coerce c (fst ob (name c)) = fst ob (name c)")
    case True
    with g show ?thesis by (simp add: settle_def)
  next
    case False
    with coerce_cases [of c "fst ob (name c)"] have "coerce c (fst ob (name c)) = Some JNull"
      by blast
    with False g set_null_own [OF assms] show ?thesis by (simp add: settle_def)
  qed
qed

lemma settle_field:
  "\<not> inherited k \<or> fst ob k \<noteq> None \<Longrightarrow>
   fst (settle c ob) k = (if name c = k then coerce c (fst ob k) else fst ob k)"
  using settle_own [of c ob] settle_other [of c k ob] by auto

lemma coerce_Some: "v \<noteq> None \<Longrightarrow> coerce c v \<noteq> None"
  by (auto simp: coerce_def split: option.splits)

lemma settle_keeps:
  assumes "\<not> inherited k \<or> fst ob k \<noteq> None"
  shows "\<not> inherited k \<or> fst (settle c ob) k \<noteq> None"
proof (cases "inherited k")
  case False
  then show ?thesis by simp
next
  case True
  with assms have "fst ob k \<noteq> None" by simp
  with settle_field [OF assms, of c] coerce_Some [of "fst ob k" c] show ?thesis by auto
qed

lemma shape_learn: "shape (learn c v) = shape c"
  by (auto simp: shape_def learn_def split: option.splits)


lemma name_shape: "name (shape c) = name c"
  by (simp add: shape_def)



lemma validateColumns_Cons:
  "validateColumns w (c # cs) ob =
     (case (if checked (get_key ob (name c)) then pattern_error w c else None) of
        Some e \<Rightarrow> (Some e, settle c ob, learn c (get_key ob (name c)) # cs)
      | None \<Rightarrow>
          (case validateColumns w cs (settle c ob) of
             (e, ob'', cs') \<Rightarrow> (e, ob'', learn c (get_key ob (name c)) # cs')))"
  by (simp add: validateColumn_eq split: option.splits)

declare validateColumns.simps(2) [simp del]

lemma validateColumns_shape:
  "validateColumns w cs ob = (e, ob', cs') \<Longrightarrow> map shape cs' = map shape cs"
proof (induction cs arbitrary: ob e ob' cs')
  case Nil
  then show ?case by simp
next
  case (Cons c cs)
  show ?case
  proof (cases "if checked (get_key ob (name c)) then pattern_error w c else None")
    case (Some x)
    with Cons.prems show ?thesis
      by (auto simp: validateColumns_Cons shape_learn)
  next
    case None
    obtain e2 ob2 cs2 where rest: "validateColumns w cs (settle c ob) = (e2, ob2, cs2)"
      by (cases "validateColumns w cs (settle c ob)") auto
    from Cons.IH [OF rest] have "map shape cs2 = map shape cs" .
    with None rest Cons.prems show ?thesis
      by (auto simp: validateColumns_Cons shape_learn)
  qed
qed

lemma normalise_Nil: "normalise [] k v = v"
  by (simp add: normalise_def)

lemma normalise_Cons:
  "normalise (c # cs) k v = normalise cs k (if name c = k then coerce c v else v)"
  by (simp add: normalise_def)

lemma validateColumns_normalise:
  "validateColumns w cs ob = (None, ob', cs') \<Longrightarrow> \<not> inherited k \<or> fst ob k \<noteq> None \<Longrightarrow>
   fst ob' k = normalise cs k (fst ob k)"
proof (induction cs arbitrary: ob ob' cs')
  case Nil
  then show ?case by (simp add: normalise_Nil)
next
  case (Cons c cs)
  from Cons.prems(1) have ok: "(if checked (get_key ob (name c)) then pattern_error w c else None) = None"
    by (auto simp: validateColumns_Cons split: option.splits)
  obtain e2 ob2 cs2 where rest: "validateColumns w cs (settle c ob) = (e2, ob2, cs2)"
    by (cases "validateColumns w cs (settle c ob)") auto
  with ok Cons.prems(1) have "e2 = None" "ob2 = ob'"
    by (auto simp: validateColumns_Cons)
  with rest have "validateColumns w cs (settle c ob) = (None, ob', cs2)" by simp
  moreover from Cons.prems(2) have "\<not> inherited k \<or> fst (settle c ob) k \<noteq> None"
    by (rule settle_keeps)
  ultimately have "fst ob' k = normalise cs k (fst (settle c ob) k)" by (rule Cons.IH)
  with settle_field [OF Cons.prems(2), of c] show ?case by (simp add: normalise_Cons)
qed



lemma field_settled_Cons:
  "field_settled (c # cs) k v \<longleftrightarrow> (name c = k \<longrightarrow> coerce c v = v) \<and> field_settled cs k v"
  by (simp add: field_settled_def)


lemma normalise_settled: "field_settled cs k v \<Longrightarrow> normalise cs k v = v"
  by (induction cs) (auto simp: normalise_Nil normalise_Cons field_settled_Cons)





lemma validateColumns_error:
  "validateColumns w cs ob = (Some e, ob', cs') \<Longrightarrow> \<exists>c\<in>set cs. pattern_error w c = Some e"
proof (induction cs arbitrary: ob ob' cs')
  case Nil
  then show ?case by simp
next
  case (Cons c cs)
  show ?case
  proof (cases "if checked (get_key ob (name c)) then pattern_error w c else None")
    case (Some x)
    with Cons.prems have "x = e" by (auto simp: validateColumns_Cons)
    with Some have "pattern_error w c = Some e" by (auto split: if_splits)
    then show ?thesis by simp
  next
    case None
    obtain e2 ob2 cs2 where rest: "validateColumns w cs (settle c ob) = (e2, ob2, cs2)"
      by (cases "validateColumns w cs (settle c ob)") auto
    with None Cons.prems have "e2 = Some e" by (auto simp: validateColumns_Cons)
    with rest have "validateColumns w cs (settle c ob) = (Some e, ob2, cs2)" by simp
    then have "\<exists>c\<in>set cs. pattern_error w c = Some e" by (rule Cons.IH)
    then show ?thesis by auto
  qed
qed

lemma validateColumns_ok:
  "list_all (\<lambda>c. pattern_error w c = None) cs \<Longrightarrow> fst (validateColumns w cs ob) = None"
proof (cases "validateColumns w cs ob")
  case (fields e ob' cs')
  assume ok: "list_all (\<lambda>c. pattern_error w c = None) cs"
  show ?thesis
  proof (cases e)
    case None
    with fields show ?thesis by simp
  next
    case (Some x)
    with fields validateColumns_error [of w cs ob x ob' cs'] ok show ?thesis
      by (auto simp: list_all_iff)
  qed
qed

lemma distinct_head_name:
  "distinct (map name (x # cs)) \<Longrightarrow> c \<in> set cs \<Longrightarrow> name x \<noteq> name c"
proof -
  assume d: "distinct (map name (x # cs))" and c: "c \<in> set cs"
  from c have "name c \<in> set (map name cs)" by simp
  moreover from d have "name x \<notin> set (map name cs)" by simp
  ultimately show ?thesis by metis
qed

lemma validateColumns_learned:
  "distinct (map name cs) \<Longrightarrow> validateColumns w cs ob = (None, ob', cs') \<Longrightarrow>
   list_all2 (\<lambda>x x'. \<not> inherited (name x) \<or> fst ob (name x) \<noteq> None \<longrightarrow>
                      x' = learn x (fst ob (name x))) cs cs'"
proof (induction cs arbitrary: ob ob' cs')
  case Nil
  then show ?case by simp
next
  case (Cons c cs)
  from Cons.prems(2) have ok: "(if checked (get_key ob (name c)) then pattern_error w c else None) = None"
    by (auto simp: validateColumns_Cons split: option.splits)
  obtain e2 ob2 cs2 where rest: "validateColumns w cs (settle c ob) = (e2, ob2, cs2)"
    by (cases "validateColumns w cs (settle c ob)") auto
  with ok Cons.prems(2) have eq: "e2 = None" "ob2 = ob'" "cs' = learn c (get_key ob (name c)) # cs2"
    by (auto simp: validateColumns_Cons)
  with rest have "validateColumns w cs (settle c ob) = (None, ob', cs2)" by simp
  moreover from Cons.prems(1) have d: "distinct (map name cs)" by simp
  ultimately have ih: "list_all2 (\<lambda>x x'. \<not> inherited (name x) \<or> fst (settle c ob) (name x) \<noteq> None \<longrightarrow>
                      x' = learn x (fst (settle c ob) (name x))) cs cs2"
    by (rule Cons.IH [rotated])
  have tail: "list_all2 (\<lambda>x x'. \<not> inherited (name x) \<or> fst ob (name x) \<noteq> None \<longrightarrow>
                      x' = learn x (fst ob (name x))) cs cs2"
  proof (rule list.rel_mono_strong [OF ih])
    fix x x'
    assume x: "x \<in> set cs"
      and p: "\<not> inherited (name x) \<or> fst (settle c ob) (name x) \<noteq> None \<longrightarrow>
          x' = learn x (fst (settle c ob) (name x))"
    from Cons.prems(1) x have "name c \<noteq> name x" by (rule distinct_head_name)
    then have "fst (settle c ob) (name x) = fst ob (name x)" by (rule settle_other)
    with p show "\<not> inherited (name x) \<or> fst ob (name x) \<noteq> None \<longrightarrow>
        x' = learn x (fst ob (name x))"
      by simp
  qed
  have head: "\<not> inherited (name c) \<or> fst ob (name c) \<noteq> None \<longrightarrow>
      learn c (get_key ob (name c)) = learn c (fst ob (name c))"
    using get_key_own [of "name c" ob] by auto
  from head tail eq show ?case by simp
qed

lemma validateColumns_fails:
  "distinct (map name cs) \<Longrightarrow> c \<in> set cs \<Longrightarrow> checked (fst ob (name c)) \<Longrightarrow>
   pattern_error w c \<noteq> None \<Longrightarrow> fst (validateColumns w cs ob) \<noteq> None"
proof (induction cs arbitrary: ob)
  case Nil
  then show ?case by simp
next
  case (Cons x cs)
  from Cons.prems(3) have own: "fst ob (name c) \<noteq> None"
    by (auto simp: checked_def split: option.splits)
  show ?case
  proof (cases "if checked (get_key ob (name x)) then pattern_error w x else None")
    case (Some e)
    then show ?thesis by (simp add: validateColumns_Cons)
  next
    case None
    from own have "get_key ob (name c) = fst ob (name c)" by (simp add: get_key_own)
    with None Cons.prems(3,4) have "c \<noteq> x" by auto
    with Cons.prems have c: "c \<in> set cs" and d: "distinct (map name cs)" by simp_all
    from Cons.prems(1) c have "name x \<noteq> name c" by (rule distinct_head_name)
    then have "fst (settle x ob) (name c) = fst ob (name c)" by (rule settle_other)
    with Cons.prems(3) have "checked (fst (settle x ob) (name c))" by simp
    from Cons.IH [of "settle x ob", OF d c this Cons.prems(4)]
    have f: "fst (validateColumns w cs (settle x ob)) \<noteq> None" .
    obtain e2 ob2 cs2 where rest: "validateColumns w cs (settle x ob) = (e2, ob2, cs2)"
      by (cases "validateColumns w cs (settle x ob)") auto
    with f have "e2 \<noteq> None" by simp
    with None rest show ?thesis by (simp add: validateColumns_Cons)
  qed
qed

lemma pattern_error_syntax: "pattern_error w c = Some e \<Longrightarrow> \<exists>p. e = SyntaxError p"
  by (auto simp: pattern_error_def split: option.splits if_splits)

lemma normalise_other: "k \<notin> name ` set cs \<Longrightarrow> normalise cs k v = v"
  by (induction cs arbitrary: v) (auto simp: normalise_Nil normalise_Cons)

lemma normalise_distinct:
  "distinct (map name cs) \<Longrightarrow> c \<in> set cs \<Longrightarrow> normalise cs (name c) v = coerce c v"
proof (induction cs arbitrary: v)
  case Nil
  then show ?case by simp
next
  case (Cons x cs)
  show ?case
  proof (cases "c = x")
    case True
    from Cons.prems(1) have "name x \<notin> name ` set cs" by simp
    with True show ?thesis by (simp add: normalise_Cons normalise_other)
  next
    case False
    with Cons.prems have c: "c \<in> set cs" and d: "distinct (map name cs)" by simp_all
    from Cons.prems(1) c have "name x \<noteq> name c" by (rule distinct_head_name)
    with Cons.IH [OF d c] show ?thesis by (simp add: normalise_Cons)
  qed
qed

subsection \<open>validateRow\<close>

lemma validateRow_columns:
  "validateRow w r sc = (e, r', sc') \<Longrightarrow>
   \<exists>ob'. validateColumns w (columns sc) (r, True) = (e, ob', columns sc') \<and> r' = fst ob' \<and>
         sc' = sc\<lparr>columns := columns sc'\<rparr>"
  by (auto simp: validateRow_def split: prod.splits)

lemma validateRow_shape:
  "validateRow w r sc = (e, r', sc') \<Longrightarrow> map shape (columns sc') = map shape (columns sc)"
  using validateRow_columns [of w r sc e r' sc'] validateColumns_shape [of w "columns sc"]
  by blast

lemma validateRow_normalise:
  assumes "validateRow w r sc = (None, r', sc')" and "\<not> inherited k \<or> r k \<noteq> None"
  shows "r' k = normalise (columns sc) k (r k)"
proof -
  from validateRow_columns [OF assms(1)] obtain ob' where
    v: "validateColumns w (columns sc) (r, True) = (None, ob', columns sc')" and r': "r' = fst ob'"
    by blast
  from assms(2) have "\<not> inherited k \<or> fst (r, True) k \<noteq> None" by simp
  from validateColumns_normalise [OF v this] r' show ?thesis by simp
qed

lemma validateRow_error:
  "validateRow w r sc = (Some e, r', sc') \<Longrightarrow> \<exists>c\<in>set (columns sc). pattern_error w c = Some e"
  using validateRow_columns [of w r sc "Some e" r' sc'] validateColumns_error [of w "columns sc"]
  by blast

lemma validateRow_ok:
  "list_all (\<lambda>c. pattern_error w c = None) (columns sc) \<Longrightarrow> fst (validateRow w r sc) = None"
  using validateColumns_ok [of w "columns sc" "(r, True)"]
  by (cases "validateColumns w (columns sc) (r, True)") (auto simp: validateRow_def)

lemma validateRow_fails:
  assumes "distinct (map name (columns sc))" and "c \<in> set (columns sc)"
    and "checked (r (name c))" and "pattern_error w c \<noteq> None"
  shows "fst (validateRow w r sc) \<noteq> None"
proof -
  from assms(3) have "checked (fst (r, True) (name c))" by simp
  from validateColumns_fails [OF assms(1,2) this assms(4)] show ?thesis
    by (cases "validateColumns w (columns sc) (r, True)") (auto simp: validateRow_def)
qed

lemma validateRow_learned:
  assumes "distinct (map name (columns sc))" and "validateRow w r sc = (None, r', sc')"
  shows "list_all2 (\<lambda>x x'. shape x' = shape x \<and>
                     (\<not> inherited (name x) \<or> r (name x) \<noteq> None \<longrightarrow> x' = learn x (r (name x))))
           (columns sc) (columns sc')"
proof -
  from validateRow_columns [OF assms(2)] obtain ob' where
    v: "validateColumns w (columns sc) (r, True) = (None, ob', columns sc')"
    by blast
  from validateColumns_learned [OF assms(1) v]
  have l: "list_all2 (\<lambda>x x'. \<not> inherited (name x) \<or> r (name x) \<noteq> None \<longrightarrow>
      x' = learn x (r (name x))) (columns sc) (columns sc')"
    by simp
  from validateColumns_shape [OF v] have "map shape (columns sc') = map shape (columns sc)" .
  then have s: "list_all2 (\<lambda>x x'. shape x' = shape x) (columns sc) (columns sc')"
    by (simp add: list_all2_conv_all_nth map_equality_iff)
  from l s show ?thesis
    by (simp add: list_all2_conv_all_nth)
qed

text \<open>
  A required field whose name is that of a member of \<open>Object.prototype\<close> is not set to
  null when the row lacks it: the read yields the inherited member, not \<open>undefined\<close>.
\<close>

lemma required_member_name_not_nulled:
  "validateRow w0 Map.empty (draft (js ''m'') [field (js ''constructor'') TString True]) =
     (None, Map.empty, draft (js ''m'') [field (js ''constructor'') TString True])"
  by (simp add: validateRow_def validateColumn_def get_key_def set_null_def inherited_def
      validateColumns.simps draft_def field_def Let_def)

section \<open>insert and update\<close>


lemma raw_row_given:
  "k \<noteq> js ''createdAt'' \<Longrightarrow> k \<noteq> js ''updatedAt'' \<Longrightarrow> checked (d k) \<Longrightarrow>
   raw_row w st d k = d k"
  by (cases "k = js ''id''") (auto simp: raw_row_def checked_def split: option.splits)

lemma spread_id:
  "[js ''id'' \<mapsto> (if \<not> truthy (d (js ''id'')) then u else the (d (js ''id'')))] ++ d =
   d(js ''id'' := (case d (js ''id'') of None \<Rightarrow> Some u | Some v \<Rightarrow> Some v))"
  by (rule ext) (auto simp: map_add_def split: option.splits)


lemma insert_row_found:
  assumes "data st mid = Some rows" and "schemas st mid = Some sc"
    and "validateRow w (raw_row w st d) sc = (e, r', sc')"
  shows "\<exists>st'. insert_row w st mid d = ((case e of None \<Rightarrow> Inr r' | Some x \<Rightarrow> Inl x), st') \<and>
           data st' = (case e of None \<Rightarrow> (data st)(mid \<mapsto> rows @ [r']) | Some x \<Rightarrow> data st) \<and>
           schemas st' = (schemas st)(mid \<mapsto> sc') \<and>
           menus st' = menus st"
proof -
  have row: "([js ''id'' \<mapsto>
          (if \<not> truthy (d (js ''id'')) then JStr (uuidv4 w (uuid_calls st))
           else the (d (js ''id'')))] ++ d)
        (js ''createdAt'' \<mapsto> JStr (clock w (date_calls st)),
         js ''updatedAt'' \<mapsto> JStr (clock w (date_calls st + 1))) = raw_row w st d"
    unfolding raw_row_def spread_id ..
  show ?thesis
    using assms unfolding insert_row_def Let_def row
    by (cases e) simp_all
qed




lemma update_found:
  assumes "data st mid = Some rows" and "findIndex (\<lambda>r. r (js ''id'') = Some rid) rows = Some i"
    and "schemas st mid = Some sc"
    and "validateRow w (merged_row w st (rows ! i) u) sc = (e, r', sc')"
  shows "\<exists>st'. update w st mid rid u = ((case e of None \<Rightarrow> Inr r' | Some x \<Rightarrow> Inl x), st') \<and>
           data st' = (case e of None \<Rightarrow> (data st)(mid \<mapsto> rows[i := r']) | Some x \<Rightarrow> data st) \<and>
           schemas st' = (schemas st)(mid \<mapsto> sc') \<and>
           menus st' = menus st"
  using assms unfolding update_def Let_def merged_row_def
  by (cases e) simp_all



lemma merged_row_id: "merged_row w st old u (js ''id'') = old (js ''id'')"
  by (simp add: merged_row_def)

lemma merged_row_createdAt: "merged_row w st old u (js ''createdAt'') = old (js ''createdAt'')"
  by (simp add: merged_row_def)

lemma merged_row_updatedAt:
  "merged_row w st old u (js ''updatedAt'') = Some (JStr (clock w (date_calls st)))"
  by (simp add: merged_row_def)

lemma merged_row_other:
  "k \<noteq> js ''id'' \<Longrightarrow> k \<noteq> js ''createdAt'' \<Longrightarrow> k \<noteq> js ''updatedAt'' \<Longrightarrow>
   merged_row w st old u k = (old ++ u) k"
  by (simp add: merged_row_def)

lemma validateRow_accepted:
  assumes "validateRow w r sc = (None, r', sc')" and "\<not> inherited k"
    and "field_settled (columns sc) k (r k)"
  shows "r' k = r k"
proof -
  from assms(2) have "\<not> inherited k \<or> r k \<noteq> None" by simp
  from validateRow_normalise [OF assms(1) this] normalise_settled [OF assms(3)]
  show ?thesis by simp
qed

section \<open>Select options\<close>

text \<open>
  Claim C9 speaks of every non-null value that is not among the options. The empty string
  is such a value, but the validator turns it into null before it looks at the type: the
  row does not keep it and the options stay as they were.
\<close>

theorem select_empty_string_counterexample:
  "validateRow w0 [js ''status'' \<mapsto> JStr []] (draft (js ''tickets'') choices) =
     (None, [js ''status'' \<mapsto> JNull], draft (js ''tickets'') choices)"
  by (simp add: validateRow_def validateColumn_def get_key_def set_null_def inherited_def
      validateColumns.simps choices_def draft_def field_def Let_def)

text \<open>
  Claim C9, amended. For every select field that carries an options list, in a schema
  whose field names are distinct, validating a row whose value for that field is neither
  null nor the empty string and is not in the list accepts the value (the row keeps it)
  and, when validation completes, appends it to the field's options: afterwards the
  schema's column is the old one with the value added at the end of its options. Nothing
  but options changes in the schema, and every column that reads a property of the row
  itself (every column, unless one is named like a member of \<open>Object.prototype\<close> and the
  row has no such key) has learned the row's value.
\<close>

theorem select_learns_new_option:
  assumes "c \<in> set (columns sc)" and "distinct (map name (columns sc))"
    and "ftype c = TSelect" and "options c = Some os"
    and "r (name c) = Some v" and "v \<noteq> JNull" and "v \<noteq> JStr []" and "v \<notin> set os"
    and "validateRow w r sc = (None, r', sc')"
  shows "r' (name c) = Some v \<and>
         c\<lparr>options := Some (os @ [v])\<rparr> \<in> set (columns sc') \<and>
         map name (columns sc') = map name (columns sc) \<and>
         sc' = sc\<lparr>columns := columns sc'\<rparr> \<and>
         list_all2 (\<lambda>x x'. shape x' = shape x \<and>
                      (\<not> inherited (name x) \<or> r (name x) \<noteq> None \<longrightarrow> x' = learn x (r (name x))))
           (columns sc) (columns sc') \<and>
         ((\<forall>x\<in>set (columns sc). \<not> inherited (name x) \<or> r (name x) \<noteq> None) \<longrightarrow>
            sc' = sc\<lparr>columns := map (\<lambda>x. learn x (r (name x))) (columns sc)\<rparr>)"
proof -
  from validateRow_columns [OF assms(9)] have sc': "sc' = sc\<lparr>columns := columns sc'\<rparr>"
    by blast
  from validateRow_learned [OF assms(2,9)]
  have l: "list_all2 (\<lambda>x x'. shape x' = shape x \<and>
                      (\<not> inherited (name x) \<or> r (name x) \<noteq> None \<longrightarrow> x' = learn x (r (name x))))
           (columns sc) (columns sc')" .
  then have len: "length (columns sc') = length (columns sc)"
    and nth: "\<And>i. i < length (columns sc) \<Longrightarrow>
        \<not> inherited (name (columns sc ! i)) \<or> r (name (columns sc ! i)) \<noteq> None \<Longrightarrow>
        columns sc' ! i = learn (columns sc ! i) (r (name (columns sc ! i)))"
    by (simp_all add: list_all2_conv_all_nth)
  from assms(3-8) have lc: "learn c (r (name c)) = c\<lparr>options := Some (os @ [v])\<rparr>"
    by (simp add: learn_def checked_def)
  from assms(1) obtain i where i: "i < length (columns sc)" "columns sc ! i = c"
    by (auto simp: in_set_conv_nth)
  with nth [of i] assms(5) lc have "columns sc' ! i = c\<lparr>options := Some (os @ [v])\<rparr>"
    by simp
  with i(1) len have 1: "c\<lparr>options := Some (os @ [v])\<rparr> \<in> set (columns sc')"
    by (metis nth_mem)
  from assms(5) have "\<not> inherited (name c) \<or> r (name c) \<noteq> None" by simp
  from validateRow_normalise [OF assms(9) this] normalise_distinct [OF assms(2,1)]
  have "r' (name c) = coerce c (r (name c))" by simp
  with assms(3,5,6,7) have 2: "r' (name c) = Some v" by (simp add: coerce_def)
  from validateRow_shape [OF assms(9)] have "map shape (columns sc') = map shape (columns sc)" .
  then have "map (name \<circ> shape) (columns sc') = map (name \<circ> shape) (columns sc)"
    by (metis map_map)
  then have 3: "map name (columns sc') = map name (columns sc)"
    by (simp add: comp_def name_shape)
  have 4: "(\<forall>x\<in>set (columns sc). \<not> inherited (name x) \<or> r (name x) \<noteq> None) \<longrightarrow>
            sc' = sc\<lparr>columns := map (\<lambda>x. learn x (r (name x))) (columns sc)\<rparr>"
  proof
    assume a: "\<forall>x\<in>set (columns sc). \<not> inherited (name x) \<or> r (name x) \<noteq> None"
    have "columns sc' = map (\<lambda>x. learn x (r (name x))) (columns sc)"
    proof (rule nth_equalityI)
      show "length (columns sc') = length (map (\<lambda>x. learn x (r (name x))) (columns sc))"
        using len by simp
    next
      fix j
      assume "j < length (columns sc')"
      with len have j: "j < length (columns sc)" by simp
      then have "columns sc ! j \<in> set (columns sc)" by simp
      with a have "\<not> inherited (name (columns sc ! j)) \<or> r (name (columns sc ! j)) \<noteq> None"
        by blast
      from nth [OF j this] j
      show "columns sc' ! j = map (\<lambda>x. learn x (r (name x))) (columns sc) ! j"
        by simp
    qed
    with sc' show "sc' = sc\<lparr>columns := map (\<lambda>x. learn x (r (name x))) (columns sc)\<rparr>"
      by simp
  qed
  from 1 2 3 4 sc' l show ?thesis by blast
qed

theorem select_learns_new_option_witness:
  "validateRow w0 [js ''status'' \<mapsto> JStr (js ''closed'')] (draft (js ''tickets'') choices) =
     (None, [js ''status'' \<mapsto> JStr (js ''closed'')],
      draft (js ''tickets'')
        [(field (js ''status'') TSelect False)
           \<lparr>options := Some [JStr (js ''open''), JStr (js ''closed'')]\<rparr>]) \<and>
   (field (js ''status'') TSelect False)
       \<lparr>options := Some ([JStr (js ''open'')] @ [JStr (js ''closed'')])\<rparr>
     \<in> set (columns (draft (js ''tickets'')
        [(field (js ''status'') TSelect False)
           \<lparr>options := Some [JStr (js ''open''), JStr (js ''closed'')]\<rparr>]))"
proof -
  let ?c = "(field (js ''status'') TSelect False)\<lparr>options := Some [JStr (js ''open'')]\<rparr>"
  let ?sc = "draft (js ''tickets'') choices"
  let ?r = "[js ''status'' \<mapsto> JStr (js ''closed'')]"
  let ?sc' = "draft (js ''tickets'')
        [(field (js ''status'') TSelect False)
           \<lparr>options := Some [JStr (js ''open''), JStr (js ''closed'')]\<rparr>]"
  have run: "validateRow w0 ?r ?sc = (None, ?r, ?sc')"
    by (simp add: validateRow_def validateColumn_def get_key_def set_null_def inherited_def
        validateColumns.simps choices_def draft_def field_def Let_def)
  have "?c \<in> set (columns ?sc)" "distinct (map name (columns ?sc))" "ftype ?c = TSelect"
    "options ?c = Some [JStr (js ''open'')]" "?r (name ?c) = Some (JStr (js ''closed''))"
    "JStr (js ''closed'') \<noteq> JNull" "JStr (js ''closed'') \<noteq> JStr []"
    "JStr (js ''closed'') \<notin> set [JStr (js ''open'')]"
    by (simp_all add: choices_def draft_def field_def)
  from select_learns_new_option [OF this run]
  have "?c\<lparr>options := Some ([JStr (js ''open'')] @ [JStr (js ''closed'')])\<rparr> \<in> set (columns ?sc')"
    by blast
  with run show ?thesis by simp
qed

section \<open>Failure modes of insert\<close>

text \<open>
  Claim C4 says that, for an existing entity, validation never throws and that unknown
  entity and row ids are the only failures. The validator builds a \<open>RegExp\<close> from the
  pattern of a column whenever the row has a value for it that is neither null nor empty,
  and \<open>new RegExp\<close> throws on a pattern it cannot parse: for every schema with distinct
  field names that has such a column, \<open>insert\<close> of a row with a value for that column
  fails with a \<open>SyntaxError\<close> and stores nothing.
\<close>

theorem insert_row_throws_on_invalid_pattern:
  assumes "data st mid = Some rows" and "schemas st mid = Some sc"
    and "distinct (map name (columns sc))" and "c \<in> set (columns sc)"
    and "pattern_error w c \<noteq> None"
    and "name c \<noteq> js ''createdAt''" and "name c \<noteq> js ''updatedAt''"
    and "checked (d (name c))"
  shows "\<exists>p st'. insert_row w st mid d = (Inl (SyntaxError p), st') \<and> data st' = data st"
proof -
  obtain e r' sc' where v: "validateRow w (raw_row w st d) sc = (e, r', sc')"
    by (cases "validateRow w (raw_row w st d) sc") auto
  from raw_row_given [of "name c" d w st, OF assms(6,7,8)] assms(8)
  have "checked (raw_row w st d (name c))" by simp
  from validateRow_fails [of sc c "raw_row w st d" w, OF assms(3,4) this assms(5)] v
  obtain x where e: "e = Some x"
    by auto
  with v validateRow_error [of w "raw_row w st d" sc x r' sc']
  obtain c2 where "pattern_error w c2 = Some x" by blast
  then obtain p where "x = SyntaxError p" using pattern_error_syntax by blast
  with e insert_row_found [OF assms(1,2) v] show ?thesis by auto
qed

theorem insert_row_throws_on_invalid_pattern_witness:
  "insert_row w0 (entity (js ''m'') coded []) (js ''m'') [js ''code'' \<mapsto> JStr (js ''x'')] =
     (Inl (SyntaxError (js ''['')),
      (entity (js ''m'') coded [])\<lparr>uuid_calls := 1, date_calls := 2\<rparr>)"
proof -
  let ?st = "entity (js ''m'') coded []"
  let ?c = "(field (js ''code'') TString False)
              \<lparr>validation := Some \<lparr>vmin = None, vmax = None, pattern = Some (js ''['')\<rparr>\<rparr>"
  let ?d = "[js ''code'' \<mapsto> JStr (js ''x'')]"
  have "data ?st (js ''m'') = Some []" "schemas ?st (js ''m'') = Some (draft (js ''m'') coded)"
    "distinct (map name (columns (draft (js ''m'') coded)))"
    "?c \<in> set (columns (draft (js ''m'') coded))"
    "pattern_error w0 ?c \<noteq> None" "name ?c \<noteq> js ''createdAt''" "name ?c \<noteq> js ''updatedAt''"
    "checked (?d (name ?c))"
    by (simp_all add: w0_def field_def draft_def entity_def coded_def pattern_error_def checked_def)
  from insert_row_throws_on_invalid_pattern
    [of ?st "js ''m''" "[]" "draft (js ''m'') coded" ?c w0 ?d, OF this]
  obtain p st' where "insert_row w0 ?st (js ''m'') ?d = (Inl (SyntaxError p), st')" by blast
  moreover have "insert_row w0 ?st (js ''m'') ?d =
      (Inl (SyntaxError (js ''['')), ?st\<lparr>uuid_calls := 1, date_calls := 2\<rparr>)"
    by (simp add: insert_row_def update_def validateRow_def validateColumn_def get_key_def
        set_null_def inherited_def Let_def w0_def field_def draft_def entity_def coded_def
        validateColumns.simps)
  ultimately show ?thesis by simp
qed

section \<open>update and the generated fields\<close>

text \<open>
  Claim C6 says that the fields other than \<open>id\<close>, \<open>createdAt\<close> and \<open>updatedAt\<close> are the
  caller's updates merged over the prior row. The merged row goes through the validator
  before it is stored: an update that sets \<open>name\<close> to the empty string stores null.
\<close>

theorem update_coerces_empty_string_counterexample:
  "(case fst (update w0 customers (js ''customers'') (JStr (js ''r1'')) [js ''name'' \<mapsto> JStr []]) of
      Inl e \<Rightarrow> None
    | Inr r \<Rightarrow> r (js ''name'')) = Some JNull \<and>
   ([js ''id'' \<mapsto> JStr (js ''r1''), js ''name'' \<mapsto> JStr (js ''Kim''),
     js ''createdAt'' \<mapsto> JStr (js ''2025-12-31T00:00:00Z''),
     js ''updatedAt'' \<mapsto> JStr (js ''2025-12-31T00:00:00Z'')] ++ [js ''name'' \<mapsto> JStr []])
     (js ''name'') = Some (JStr [])"
  by (simp add: insert_row_def update_def validateRow_def validateColumn_def get_key_def
      set_null_def inherited_def Let_def w0_def field_def draft_def customers_def
      validateColumns.simps)

text \<open>
  Claim C6, amended. For every existing row and every updates object such that the
  validator accepts, under the entity's schema, the row's stored \<open>id\<close> and \<open>createdAt\<close>
  and the new time stamp (it accepts every non-empty string under the generated columns of
  \<open>generateSchema\<close>): \<open>update\<close> returns whenever \<open>new RegExp\<close> rejects no pattern of the
  schema, and whenever it returns, it returns and stores, in the place of the old row, a
  row whose \<open>id\<close> and \<open>createdAt\<close> equal their pre-update values even when the updates
  object supplies different ones, whose \<open>updatedAt\<close> is the current time regardless of
  caller input, and whose remaining fields are the caller's updates merged over the prior
  row and then passed through the row validator (\<open>normalise\<close>); this last part is stated
  for the fields that the merged row has or whose name is not that of a member of
  \<open>Object.prototype\<close>.
\<close>

theorem update_protects_generated_fields:
  assumes "data st m = Some rows"
    and "findIndex (\<lambda>r. r (js ''id'') = Some rid) rows = Some i"
    and "schemas st m = Some sc"
    and "field_settled (columns sc) (js ''id'') ((rows ! i) (js ''id''))"
    and "field_settled (columns sc) (js ''createdAt'') ((rows ! i) (js ''createdAt''))"
    and "field_settled (columns sc) (js ''updatedAt'') (Some (JStr (clock w (date_calls st))))"
  shows "(list_all (\<lambda>c. pattern_error w c = None) (columns sc) \<longrightarrow>
            (\<exists>r' st'. update w st m rid u = (Inr r', st'))) \<and>
         (\<forall>r' st'. update w st m rid u = (Inr r', st') \<longrightarrow>
            data st' = (data st)(m \<mapsto> rows[i := r']) \<and>
            r' (js ''id'') = (rows ! i) (js ''id'') \<and>
            r' (js ''createdAt'') = (rows ! i) (js ''createdAt'') \<and>
            r' (js ''updatedAt'') = Some (JStr (clock w (date_calls st))) \<and>
            (\<forall>k. k \<noteq> js ''id'' \<and> k \<noteq> js ''createdAt'' \<and> k \<noteq> js ''updatedAt'' \<and>
                 (\<not> inherited k \<or> (rows ! i ++ u) k \<noteq> None) \<longrightarrow>
                 r' k = normalise (columns sc) k ((rows ! i ++ u) k)))"
proof -
  let ?old = "rows ! i"
  let ?r = "merged_row w st ?old u"
  obtain e r' sc' where v: "validateRow w ?r sc = (e, r', sc')"
    by (cases "validateRow w ?r sc") auto
  from update_found [OF assms(1,2,3) v] obtain st' where
    up: "update w st m rid u = ((case e of None \<Rightarrow> Inr r' | Some x \<Rightarrow> Inl x), st')"
    and da: "data st' = (case e of None \<Rightarrow> (data st)(m \<mapsto> rows[i := r']) | Some x \<Rightarrow> data st)"
    by blast
  have 1: "list_all (\<lambda>c. pattern_error w c = None) (columns sc) \<longrightarrow>
            (\<exists>r' st'. update w st m rid u = (Inr r', st'))"
  proof
    assume "list_all (\<lambda>c. pattern_error w c = None) (columns sc)"
    from validateRow_ok [OF this, of ?r] v have "e = None" by simp
    with up show "\<exists>r' st'. update w st m rid u = (Inr r', st')" by simp
  qed
  have 2: "\<forall>r2 st2. update w st m rid u = (Inr r2, st2) \<longrightarrow>
            data st2 = (data st)(m \<mapsto> rows[i := r2]) \<and>
            r2 (js ''id'') = ?old (js ''id'') \<and>
            r2 (js ''createdAt'') = ?old (js ''createdAt'') \<and>
            r2 (js ''updatedAt'') = Some (JStr (clock w (date_calls st))) \<and>
            (\<forall>k. k \<noteq> js ''id'' \<and> k \<noteq> js ''createdAt'' \<and> k \<noteq> js ''updatedAt'' \<and>
                 (\<not> inherited k \<or> (?old ++ u) k \<noteq> None) \<longrightarrow>
                 r2 k = normalise (columns sc) k ((?old ++ u) k))"
  proof (intro allI impI)
    fix r2 st2
    assume a: "update w st m rid u = (Inr r2, st2)"
    with up have e: "e = None" by (cases e) simp_all
    with a up have r2: "r2 = r'" and st2: "st2 = st'" by simp_all
    from v e have v': "validateRow w ?r sc = (None, r', sc')" by simp
    from assms(4) have "field_settled (columns sc) (js ''id'') (?r (js ''id''))"
      by (simp only: merged_row_id)
    from validateRow_accepted [OF v' plain_id this]
    have i1: "r' (js ''id'') = ?old (js ''id'')" by (simp only: merged_row_id)
    from assms(5) have "field_settled (columns sc) (js ''createdAt'') (?r (js ''createdAt''))"
      by (simp only: merged_row_createdAt)
    from validateRow_accepted [OF v' plain_createdAt this]
    have i2: "r' (js ''createdAt'') = ?old (js ''createdAt'')" by (simp only: merged_row_createdAt)
    from assms(6) have "field_settled (columns sc) (js ''updatedAt'') (?r (js ''updatedAt''))"
      by (simp only: merged_row_updatedAt)
    from validateRow_accepted [OF v' plain_updatedAt this]
    have i3: "r' (js ''updatedAt'') = Some (JStr (clock w (date_calls st)))"
      by (simp only: merged_row_updatedAt)
    have i4: "\<forall>k. k \<noteq> js ''id'' \<and> k \<noteq> js ''createdAt'' \<and> k \<noteq> js ''updatedAt'' \<and>
                 (\<not> inherited k \<or> (?old ++ u) k \<noteq> None) \<longrightarrow>
                 r' k = normalise (columns sc) k ((?old ++ u) k)"
    proof (intro allI impI)
      fix k
      assume k: "k \<noteq> js ''id'' \<and> k \<noteq> js ''createdAt'' \<and> k \<noteq> js ''updatedAt'' \<and>
                 (\<not> inherited k \<or> (?old ++ u) k \<noteq> None)"
      then have m: "?r k = (?old ++ u) k"
        using merged_row_other [of k w st ?old u] by blast
      with k have "\<not> inherited k \<or> ?r k \<noteq> None" by simp
      from validateRow_normalise [OF v' this] m
      show "r' k = normalise (columns sc) k ((?old ++ u) k)" by simp
    qed
    from e da have "data st' = (data st)(m \<mapsto> rows[i := r'])" by simp
    with i1 i2 i3 i4 r2 st2
    show "data st2 = (data st)(m \<mapsto> rows[i := r2]) \<and>
            r2 (js ''id'') = ?old (js ''id'') \<and>
            r2 (js ''createdAt'') = ?old (js ''createdAt'') \<and>
            r2 (js ''updatedAt'') = Some (JStr (clock w (date_calls st))) \<and>
            (\<forall>k. k \<noteq> js ''id'' \<and> k \<noteq> js ''createdAt'' \<and> k \<noteq> js ''updatedAt'' \<and>
                 (\<not> inherited k \<or> (?old ++ u) k \<noteq> None) \<longrightarrow>
                 r2 k = normalise (columns sc) k ((?old ++ u) k))"
      by simp
  qed
  from 1 2 show ?thesis by blast
qed

theorem update_protects_generated_fields_witness:
  "field_settled (columns (draft (js ''clients'') generated_columns)) (js ''id'') (kim (js ''id'')) \<and>
   field_settled (columns (draft (js ''clients'') generated_columns)) (js ''createdAt'')
     (kim (js ''createdAt'')) \<and>
   field_settled (columns (draft (js ''clients'') generated_columns)) (js ''updatedAt'')
     (Some (JStr (clock w0 (date_calls clients)))) \<and>
   (\<exists>r' st'. update w0 clients (js ''clients'') (JStr (js ''r1''))
        [js ''id'' \<mapsto> JStr (js ''forged''), js ''createdAt'' \<mapsto> JStr (js ''2000-01-01''),
         js ''updatedAt'' \<mapsto> JStr (js ''2000-01-01''), js ''name'' \<mapsto> JStr (js ''Park''),
         js ''note'' \<mapsto> JStr []] =
        (Inr r', st') \<and>
      data st' (js ''clients'') = Some [r'] \<and>
      r' (js ''id'') = Some (JStr (js ''r1'')) \<and>
      r' (js ''createdAt'') = Some (JStr (js ''2025-12-31T00:00:00Z'')) \<and>
      r' (js ''updatedAt'') = Some (JStr (js ''2026-01-01T00:00:00Z'')) \<and>
      r' (js ''name'') = Some (JStr (js ''Park'')) \<and>
      r' (js ''note'') = Some (JStr []))"
proof -
  let ?sc = "draft (js ''clients'') generated_columns"
  let ?u = "[js ''id'' \<mapsto> JStr (js ''forged''), js ''createdAt'' \<mapsto> JStr (js ''2000-01-01''),
         js ''updatedAt'' \<mapsto> JStr (js ''2000-01-01''), js ''name'' \<mapsto> JStr (js ''Park''),
         js ''note'' \<mapsto> JStr []]"
  have h: "data clients (js ''clients'') = Some [kim]"
    "findIndex (\<lambda>r. r (js ''id'') = Some (JStr (js ''r1''))) [kim] = Some 0"
    "schemas clients (js ''clients'') = Some ?sc"
    by (simp_all add: clients_def entity_def kim_def)
  have f: "field_settled (columns ?sc) (js ''id'') (([kim] ! 0) (js ''id''))"
    "field_settled (columns ?sc) (js ''createdAt'') (([kim] ! 0) (js ''createdAt''))"
    "field_settled (columns ?sc) (js ''updatedAt'') (Some (JStr (clock w0 (date_calls clients))))"
    by (simp_all add: field_settled_def coerce_def draft_def generated_columns_def field_def
        id_column_def createdAt_column_def updatedAt_column_def kim_def w0_def)
  have ok: "list_all (\<lambda>c. pattern_error w0 c = None) (columns ?sc)"
    by (simp add: draft_def generated_columns_def field_def id_column_def createdAt_column_def
        updatedAt_column_def pattern_error_def)
  have plain: "\<not> inherited (js ''name'')" "\<not> inherited (js ''note'')"
    by (simp_all add: inherited_def)
  from update_protects_generated_fields [OF h f, of ?u] ok
  obtain r' st' where r: "update w0 clients (js ''clients'') (JStr (js ''r1'')) ?u = (Inr r', st')"
    by blast
  from update_protects_generated_fields [OF h f, of ?u] r plain
  have p: "data st' = (data clients)(js ''clients'' \<mapsto> [kim][0 := r'])"
    "r' (js ''id'') = ([kim] ! 0) (js ''id'')"
    "r' (js ''createdAt'') = ([kim] ! 0) (js ''createdAt'')"
    "r' (js ''updatedAt'') = Some (JStr (clock w0 (date_calls clients)))"
    "r' (js ''name'') = normalise (columns ?sc) (js ''name'') (([kim] ! 0 ++ ?u) (js ''name''))"
    "r' (js ''note'') = normalise (columns ?sc) (js ''note'') (([kim] ! 0 ++ ?u) (js ''note''))"
    by (auto simp del: nth_Cons_0 map_add_upd list_update_code)
  have "data st' (js ''clients'') = Some [r']"
    "r' (js ''id'') = Some (JStr (js ''r1''))"
    "r' (js ''createdAt'') = Some (JStr (js ''2025-12-31T00:00:00Z''))"
    "r' (js ''updatedAt'') = Some (JStr (js ''2026-01-01T00:00:00Z''))"
    "r' (js ''name'') = Some (JStr (js ''Park''))"
    "r' (js ''note'') = Some (JStr [])"
    using p
    by (simp_all add: normalise_def coerce_def draft_def generated_columns_def field_def
        id_column_def createdAt_column_def updatedAt_column_def kim_def clients_def entity_def
        w0_def)
  with r f show ?thesis by auto
qed

text \<open>
  A defect of \<open>update\<close> that the theorem leaves out. \<open>update\<close> restores \<open>id\<close> and
  \<open>createdAt\<close> (the source says of the id that it cannot be changed) and only then runs
  the validator, which can still set them to null. It does so as soon as the stored value
  is no longer accepted under the schema, which happens when the schema has been replaced
  after the row was written: \<open>PUT /api/schema/:menuId\<close> assigns \<open>schema.columns\<close> whatever
  the request holds. With an \<open>id\<close> column of type number, an update with no changes at
  all turns the id \<open>r1\<close> into null.
\<close>

lemma r1_not_numeric: "isNaN (JStr [114, 49])"
  by (simp add: str_numeric_def trim_def is_space_def unsigned_decimal_def is_digit_def)

lemma update_nulls_id_after_schema_change:
  "map_option ids
     (data (snd (update w0 retyped (js ''clients'') (JStr (js ''r1'')) Map.empty)) (js ''clients'')) =
   Some [Some JNull]"
  using r1_not_numeric
  by (simp add: ids_def update_def validateRow_def validateColumn_def get_key_def set_null_def
      inherited_def Let_def w0_def field_def draft_def entity_def retyped_def kim_def
      id_column_def createdAt_column_def updatedAt_column_def validateColumns.simps)

section \<open>Row ids\<close>


lemma ids_accepted_empty: "data st mid = Some [] \<Longrightarrow> ids_accepted st mid"
  by (simp add: ids_accepted_def split: option.splits)












end
